theory Spec2Isabelle
  imports Main "HOL-Library.Multiset" "HOL-Library.Char_ord" "HOL-Library.List_Lexorder"
begin

section \<open>JavaScript strings\<close>

text \<open>
  A JavaScript string is modelled as a \<^typ>\<open>string\<close>, one \<^typ>\<open>char\<close> per code unit
  (the model covers code units below 256).  The empty string is the falsy string.
\<close>

fun startsWith :: "string \<Rightarrow> string \<Rightarrow> bool" where
  "startsWith s [] = True"
| "startsWith [] (x # w) = False"
| "startsWith (y # s) (x # w) = (x = y \<and> startsWith s w)"

text \<open>\<^verbatim>\<open>s.endsWith(w)\<close>\<close>

definition endsWith :: "string \<Rightarrow> string \<Rightarrow> bool" where
  "endsWith s w = startsWith (rev s) (rev w)"

text \<open>\<^verbatim>\<open>s.indexOf(w)\<close>; \<open>None\<close> stands for the result \<open>-1\<close>.\<close>

fun indexOf :: "string \<Rightarrow> string \<Rightarrow> nat option" where
  "indexOf [] w = (if w = [] then Some 0 else None)"
| "indexOf (y # s) w =
     (if startsWith (y # s) w then Some 0 else map_option Suc (indexOf s w))"

text \<open>\<^verbatim>\<open>s.includes(w)\<close>\<close>

definition includesStr :: "string \<Rightarrow> string \<Rightarrow> bool" where
  "includesStr s w = (indexOf s w \<noteq> None)"

text \<open>
  \<^verbatim>\<open>s.split(sep)\<close> for a separator of one character: \<open>splitAcc\<close> carries the
  segment read so far.  The result always has at least one segment.
\<close>

fun splitAcc :: "char \<Rightarrow> string \<Rightarrow> string \<Rightarrow> string list" where
  "splitAcc sep acc [] = [acc]"
| "splitAcc sep acc (x # s) =
     (if x = sep then acc # splitAcc sep [] s else splitAcc sep (acc @ [x]) s)"

definition split :: "string \<Rightarrow> char \<Rightarrow> string list" where
  "split s sep = splitAcc sep [] s"

text \<open>\<^verbatim>\<open>xs[i]\<close> on an array: \<open>None\<close> stands for \<open>undefined\<close>.\<close>

fun at :: "'a list \<Rightarrow> nat \<Rightarrow> 'a option" where
  "at [] i = None"
| "at (x # xs) 0 = Some x"
| "at (x # xs) (Suc i) = at xs i"

section \<open>Regular expressions as \<^verbatim>\<open>RegExp\<close> runs them\<close>

text \<open>
  The patterns of \<^verbatim>\<open>src/utils/type.js\<close> use literals, the classes
  \<^verbatim>\<open>[a-zA-Z0-9]\<close>, \<^verbatim>\<open>[0-9]\<close> and \<^verbatim>\<open>.\<close>, \<^verbatim>\<open>+\<close> and \<^verbatim>\<open>*\<close> on a class,
  sequence, alternation, optional groups, capturing groups and backreferences.
  All of them are anchored by \<^verbatim>\<open>^\<close> and \<^verbatim>\<open>$\<close>.
\<close>

text \<open>
  The classes \<^verbatim>\<open>[a-zA-Z0-9]\<close>, \<^verbatim>\<open>[0-9]\<close> and \<^verbatim>\<open>.\<close>.  The dot is every character but a
  line terminator (of which line feed and carriage return are code units below 256).
\<close>

datatype cclass = AlNum | Digit | Dot

fun inClass :: "cclass \<Rightarrow> char \<Rightarrow> bool" where
  "inClass AlNum x =
     (let n = (of_char x :: nat)
      in (97 \<le> n \<and> n \<le> 122) \<or> (65 \<le> n \<and> n \<le> 90) \<or> (48 \<le> n \<and> n \<le> 57))"
| "inClass Digit x = (let n = (of_char x :: nat) in 48 \<le> n \<and> n \<le> 57)"
| "inClass Dot x = (let n = (of_char x :: nat) in n \<noteq> 10 \<and> n \<noteq> 13)"

text \<open>
  A pattern: the empty pattern, a literal character, a literal string, a character of a
  class, a class under \<^verbatim>\<open>+\<close> or \<^verbatim>\<open>*\<close>, a sequence, an alternation \<^verbatim>\<open>a|b\<close>, an optional
  pattern \<^verbatim>\<open>(?:a)?\<close>, the capturing group of a number, and the backreference to one.
\<close>

datatype regex =
    Eps
  | Chr char
  | Str string
  | Cls cclass
  | PlusC cclass
  | StarC cclass
  | Seq regex regex
  | Alt regex regex
  | Opt regex
  | Grp nat regex
  | Bref nat

type_synonym captures = "nat \<Rightarrow> string option"

text \<open>
  The backtracking matcher, as the list of its successes in the order in which
  backtracking finds them: each success is the input left over and the captures.
  A greedy quantifier lists the longer match first; an optional group that
  consumed nothing is not an iteration; a backreference to a group that did not
  take part matches the empty string.  All captures are undefined when a match
  starts, and no group of these patterns is inside a repetition, so that the reset
  of the captures at the start of an iteration changes nothing.
\<close>

fun starC :: "cclass \<Rightarrow> string \<Rightarrow> captures \<Rightarrow> (string \<times> captures) list" where
  "starC k [] c = [([], c)]"
| "starC k (x # s) c =
     (if inClass k x then starC k s c @ [(x # s, c)] else [(x # s, c)])"

fun rmatch :: "regex \<Rightarrow> string \<Rightarrow> captures \<Rightarrow> (string \<times> captures) list" where
  "rmatch Eps s c = [(s, c)]"
| "rmatch (Chr x) s c = (case s of [] \<Rightarrow> [] | y # t \<Rightarrow> if x = y then [(t, c)] else [])"
| "rmatch (Str w) s c = (if startsWith s w then [(drop (length w) s, c)] else [])"
| "rmatch (Cls k) s c = (case s of [] \<Rightarrow> [] | y # t \<Rightarrow> if inClass k y then [(t, c)] else [])"
| "rmatch (PlusC k) s c =
     (case s of [] \<Rightarrow> [] | y # t \<Rightarrow> if inClass k y then starC k t c else [])"
| "rmatch (StarC k) s c = starC k s c"
| "rmatch (Seq a b) s c = concat (map (\<lambda>(t, d). rmatch b t d) (rmatch a s c))"
| "rmatch (Alt a b) s c = rmatch a s c @ rmatch b s c"
| "rmatch (Opt a) s c = filter (\<lambda>(t, d). length t < length s) (rmatch a s c) @ [(s, c)]"
| "rmatch (Grp n a) s c =
     map (\<lambda>(t, d). (t, d(n \<mapsto> take (length s - length t) s))) (rmatch a s c)"
| "rmatch (Bref n) s c =
     (case c n of
        None \<Rightarrow> [(s, c)]
      | Some g \<Rightarrow> if startsWith s g then [(drop (length g) s, c)] else [])"

text \<open>
  \<^verbatim>\<open>expression.exec(path)\<close> for a pattern \<^verbatim>\<open>^body$\<close>: the captures of the first
  success that consumed the whole input, \<open>None\<close> for \<^verbatim>\<open>null\<close>.
\<close>

definition exec :: "regex \<Rightarrow> string \<Rightarrow> captures option" where
  "exec body path =
     map_option snd (find (\<lambda>(t, d). t = []) (rmatch body path (\<lambda>n. None)))"

definition test :: "regex \<Rightarrow> string \<Rightarrow> bool" where
  "test body path = (exec body path \<noteq> None)"

fun seqs :: "regex list \<Rightarrow> regex" where
  "seqs [] = Eps"
| "seqs (a # as) = Seq a (seqs as)"

fun alts :: "regex list \<Rightarrow> regex" where
  "alts [] = Eps"
| "alts [a] = a"
| "alts (a # b # as) = Alt a (alts (b # as))"

section \<open>\<^verbatim>\<open>src/utils/type.js\<close>\<close>

definition anatSuffixes :: "string list" where
  "anatSuffixes = [''T1w'', ''T2w'', ''T1map'', ''T2map'', ''FLAIR'', ''PD'', ''PDT2'',
     ''inplaneT1'', ''inplaneT2'', ''angio'', ''defacemask'', ''SWImagandphase'']"

text \<open>The pieces the patterns share.\<close>

text \<open>\<^verbatim>\<open>(sub-[a-zA-Z0-9]+)\<close>\<close>
definition subGroup :: regex where
  "subGroup = Grp 1 (Seq (Str ''sub-'') (PlusC AlNum))"

text \<open>\<^verbatim>\<open>(?:(ses-[a-zA-Z0-9]+)\/)?\<close>\<close>
definition sesDir :: regex where
  "sesDir = Opt (Seq (Grp 2 (Seq (Str ''ses-'') (PlusC AlNum))) (Chr CHR ''/''))"

text \<open>\<^verbatim>\<open>(_\2)?\<close>\<close>
definition sesToken :: regex where
  "sesToken = Opt (Grp 3 (Seq (Chr CHR ''_'') (Bref 2)))"

text \<open>\<^verbatim>\<open>(?:ses-[a-zA-Z0-9]+_)?\<close>\<close>
definition sesTop :: regex where
  "sesTop = Opt (seqs [Str ''ses-'', PlusC AlNum, Chr CHR ''_''])"

text \<open>\<^verbatim>\<open>(?:_acq-[a-zA-Z0-9]+)?\<close>, \<^verbatim>\<open>(?:_rec-[a-zA-Z0-9]+)?\<close>, \<^verbatim>\<open>(?:_run-[0-9]+)?\<close>,
  \<^verbatim>\<open>(?:_dir-[0-9]+)?\<close>, \<^verbatim>\<open>(?:_recording-[a-zA-Z0-9]+)?\<close>, \<^verbatim>\<open>task-[a-zA-Z0-9]+\<close>\<close>
definition acq :: regex where
  "acq = Opt (Seq (Str ''_acq-'') (PlusC AlNum))"
definition rec :: regex where
  "rec = Opt (Seq (Str ''_rec-'') (PlusC AlNum))"
definition run :: regex where
  "run = Opt (Seq (Str ''_run-'') (PlusC Digit))"
definition dir :: regex where
  "dir = Opt (Seq (Str ''_dir-'') (PlusC Digit))"
definition recording :: regex where
  "recording = Opt (Seq (Str ''_recording-'') (PlusC AlNum))"
definition task :: regex where
  "task = Seq (Str ''task-'') (PlusC AlNum)"

text \<open>A literal of the pattern in which \<^verbatim>\<open>.\<close> is the class of all characters but
  line terminators, as in \<^verbatim>\<open>_bold.nii.gz\<close>: the pieces between the dots.\<close>
fun dotted :: "string list \<Rightarrow> regex" where
  "dotted [] = Eps"
| "dotted [w] = Str w"
| "dotted (w # v # ws) = Seq (Str w) (Seq (Cls Dot) (dotted (v # ws)))"


text \<open>\<^verbatim>\<open>x\<close> used as a condition, for a string or \<^verbatim>\<open>undefined\<close>.\<close>
fun truthy :: "string option \<Rightarrow> bool" where
  "truthy None = False"
| "truthy (Some s) = (s \<noteq> [])"

definition conditionalMatch :: "regex \<Rightarrow> string \<Rightarrow> bool" where
  "conditionalMatch expression path =
     (case exec expression path of
        None \<Rightarrow> False
      | Some match \<Rightarrow>
          if (truthy (match 2) \<and> truthy (match 3)) \<or> \<not> truthy (match 2) then True else False)"

subsection \<open>Top level, code, derivatives and version control\<close>

definition fixedTopLevelNames :: "string list" where
  "fixedTopLevelNames = [''/README'', ''/CHANGES'', ''/dataset_description.json'',
     ''/participants.tsv'', ''/phasediff.json'', ''/phase1.json'', ''/phase2.json'',
     ''/fieldmap.json'']"

definition funcTopRe :: regex where
  "funcTopRe = seqs [Chr CHR ''/'', sesTop, task, acq, rec, run,
     Grp 1 (alts [dotted [''_bold'', ''json''], dotted [''_events'', ''tsv''],
                  dotted [''_physio'', ''json''], dotted [''_stim'', ''json'']])]"

definition anatTopRe :: regex where
  "anatTopRe = seqs [Chr CHR ''/'', sesTop, acq, rec,
     Opt (seqs [Str ''_run-'', PlusC Digit, Chr CHR ''_'']),
     Grp 1 (alts (map Str anatSuffixes)), Cls Dot, Str ''json'']"

definition dwiTopRe :: regex where
  "dwiTopRe = seqs [Chr CHR ''/'', Opt (Seq (Str ''ses-'') (PlusC AlNum)), acq, rec, run,
     Opt (Chr CHR ''_''), Str ''dwi'', Cls Dot,
     alts [Str ''json'', Str ''bval'', Str ''bvec'']]"

definition multiDirFieldmapRe :: regex where
  "multiDirFieldmapRe =
     seqs [Chr CHR ''/'', Str ''dir-'', PlusC Digit, Str ''_epi'', Cls Dot, Str ''json'']"

definition isTopLevel :: "string \<Rightarrow> bool" where
  "isTopLevel path =
     (path \<in> set fixedTopLevelNames \<or> test funcTopRe path \<or> test dwiTopRe path \<or>
      test anatTopRe path \<or> test multiDirFieldmapRe path)"

definition codeOrDerivatives :: regex where
  "codeOrDerivatives =
     seqs [Chr CHR ''/'', Alt (Str ''code'') (Str ''derivatives''), Chr CHR ''/'', StarC Dot]"

definition isCodeOrDerivatives :: "string \<Rightarrow> bool" where
  "isCodeOrDerivatives path = test codeOrDerivatives path"

definition versionControl :: regex where
  "versionControl = seqs [Chr CHR ''/'', Str ''.git'', Chr CHR ''/'', StarC Dot]"

definition isVersionControl :: "string \<Rightarrow> bool" where
  "isVersionControl path = test versionControl path"

subsection \<open>Session and subject level\<close>

definition scansRe :: regex where
  "scansRe = seqs [Chr CHR ''/'', subGroup, Chr CHR ''/'', sesDir, Bref 1, sesToken,
     dotted [''_scans'', ''tsv'']]"

definition funcSesRe :: regex where
  "funcSesRe = seqs [Chr CHR ''/'', subGroup, Chr CHR ''/'', sesDir, Bref 1, sesToken,
     task, acq, rec, run,
     Grp 4 (alts [dotted [''_bold'', ''json''], dotted [''_events'', ''tsv''],
                  dotted [''_physio'', ''json''], dotted [''_stim'', ''json'']])]"

definition anatSesRe :: regex where
  "anatSesRe = seqs [Chr CHR ''/'', subGroup, Chr CHR ''/'', sesDir, Bref 1, sesToken,
     acq, rec, Opt (seqs [Str ''_run-'', PlusC Digit, Chr CHR ''_'']),
     Grp 4 (alts (map Str anatSuffixes)), Cls Dot, Str ''json'']"

definition dwiSesRe :: regex where
  "dwiSesRe = seqs [Chr CHR ''/'', subGroup, Chr CHR ''/'', sesDir, Bref 1, sesToken,
     acq, rec, run, Opt (Chr CHR ''_''), Str ''dwi'', Cls Dot,
     alts [Str ''json'', Str ''bval'', Str ''bvec'']]"

definition isSessionLevel :: "string \<Rightarrow> bool" where
  "isSessionLevel path =
     (conditionalMatch scansRe path \<or> conditionalMatch funcSesRe path \<or>
      conditionalMatch anatSesRe path \<or> conditionalMatch dwiSesRe path)"

definition sessionsRe :: regex where
  "sessionsRe = seqs [Chr CHR ''/'', subGroup, Chr CHR ''/'', Bref 1,
     dotted [''_sessions'', ''tsv'']]"

definition isSubjectLevel :: "string \<Rightarrow> bool" where
  "isSubjectLevel path = test sessionsRe path"

subsection \<open>Subject data\<close>

definition anatRe :: regex where
  "anatRe = seqs [Chr CHR ''/'', subGroup, Chr CHR ''/'', sesDir, Str ''anat'', Chr CHR ''/'',
     Bref 1, sesToken, acq, rec, run, Chr CHR ''_'',
     alts (map Str anatSuffixes), Cls Dot,
     Grp 4 (alts [dotted [''nii'', ''gz''], Str ''nii'', Str ''json''])]"

definition isAnat :: "string \<Rightarrow> bool" where
  "isAnat path = conditionalMatch anatRe path"

definition dwiRe :: regex where
  "dwiRe = seqs [Chr CHR ''/'', subGroup, Chr CHR ''/'', sesDir, Str ''dwi'', Chr CHR ''/'',
     Bref 1, sesToken, acq, rec, run, Chr CHR ''_'',
     alts (map Str [''dwi'', ''sbref'']), Cls Dot,
     Grp 4 (alts [dotted [''nii'', ''gz''], Str ''nii'', Str ''json'', Str ''bvec'',
                  Str ''bval''])]"

definition isDWI :: "string \<Rightarrow> bool" where
  "isDWI path = conditionalMatch dwiRe path"

definition fieldMapRe :: regex where
  "fieldMapRe = seqs [Chr CHR ''/'', subGroup, Chr CHR ''/'', sesDir, Str ''fmap'', Chr CHR ''/'',
     Bref 1, sesToken, acq, rec, dir, run, Chr CHR ''_'',
     alts (map Str [''phasediff'', ''phase1'', ''phase2'', ''magnitude1'', ''magnitude2'',
                    ''fieldmap'', ''epi'']), Cls Dot,
     Grp 4 (alts [dotted [''nii'', ''gz''], Str ''nii'', Str ''json''])]"

definition isFieldMap :: "string \<Rightarrow> bool" where
  "isFieldMap path = conditionalMatch fieldMapRe path"

definition funcRe :: regex where
  "funcRe = seqs [Chr CHR ''/'', subGroup, Chr CHR ''/'', sesDir, Str ''func'', Chr CHR ''/'',
     Bref 1, sesToken, Chr CHR ''_'', task, acq, rec, run,
     alts [dotted [''_bold'', ''nii'', ''gz''], dotted [''_bold'', ''nii''],
           dotted [''_bold'', ''json''], dotted [''_sbref'', ''nii'', ''gz''],
           dotted [''_sbref'', ''json''], dotted [''_events'', ''tsv''],
           dotted [''_physio'', ''tsv'', ''gz''], dotted [''_stim'', ''tsv'', ''gz''],
           dotted [''_physio'', ''json''], dotted [''_stim'', ''json'']]]"

definition isFunc :: "string \<Rightarrow> bool" where
  "isFunc path = conditionalMatch funcRe path"

definition behRe :: regex where
  "behRe = seqs [Chr CHR ''/'', subGroup, Chr CHR ''/'', sesDir, Str ''beh'', Chr CHR ''/'',
     Bref 1, sesToken, Chr CHR ''_'', task, acq, rec, run,
     alts [dotted [''_beh'', ''json''], dotted [''_events'', ''tsv''],
           dotted [''_physio'', ''tsv'', ''gz''], dotted [''_stim'', ''tsv'', ''gz''],
           dotted [''_physio'', ''json''], dotted [''_stim'', ''json'']]]"

definition isBehavioral :: "string \<Rightarrow> bool" where
  "isBehavioral path = conditionalMatch behRe path"

definition funcBoldRe :: regex where
  "funcBoldRe = seqs [Chr CHR ''/'', subGroup, Chr CHR ''/'', sesDir, Str ''func'', Chr CHR ''/'',
     Bref 1, sesToken, Chr CHR ''_'', task, acq, rec, run,
     alts [dotted [''_bold'', ''nii'', ''gz''], dotted [''_bold'', ''nii''],
           dotted [''_sbref'', ''nii'', ''gz''], dotted [''_sbref'', ''nii'']]]"

definition isFuncBold :: "string \<Rightarrow> bool" where
  "isFuncBold path = conditionalMatch funcBoldRe path"

definition contRe :: regex where
  "contRe = seqs [Chr CHR ''/'', subGroup, Chr CHR ''/'', sesDir,
     Alt (Str ''func'') (Str ''beh''), Chr CHR ''/'',
     Bref 1, sesToken, Chr CHR ''_'', task, acq, rec, run, recording,
     alts [dotted [''_physio'', ''tsv'', ''gz''], dotted [''_stim'', ''tsv'', ''gz''],
           dotted [''_physio'', ''json''], dotted [''_stim'', ''json'']]]"

definition isCont :: "string \<Rightarrow> bool" where
  "isCont path = conditionalMatch contRe path"

definition isBIDS :: "string \<Rightarrow> bool" where
  "isBIDS path =
     (isTopLevel path \<or> isCodeOrDerivatives path \<or> isSessionLevel path \<or>
      isSubjectLevel path \<or> isAnat path \<or> isDWI path \<or> isFunc path \<or>
      isBehavioral path \<or> isCont path \<or> isFieldMap path \<or> isVersionControl path)"


section \<open>The validator (\<^verbatim>\<open>src/unnamed/part_000\<close>)\<close>

subsection \<open>Files, issues, options and the collaborators\<close>

text \<open>
  A file as the enumerator hands it over: its name, the relative path that
  \<^verbatim>\<open>utils.files.relativePath\<close> gives for it, and its size.
\<close>

record fileRef =
  name :: string
  relativePath :: string
  fileSize :: nat

text \<open>\<^verbatim>\<open>new utils.Issue({file: ..., evidence: ..., code: ...})\<close>; the code is a natural
  number.\<close>

record issue =
  issue_file :: fileRef
  evidence :: string
  code :: nat

record options =
  ignoreWarnings :: bool
  ignoreNiftiHeaders :: bool

text \<open>An entry of the static table \<^verbatim>\<open>utils.issues\<close>, which is not part of the sources at hand:
  the table is a parameter, a code without an entry is looked up as \<open>None\<close>.\<close>

record issueType =
  severity :: string
  reason :: string

type_synonym issueTable = "nat \<Rightarrow> issueType option"

datatype validator = V_TSV | V_JSON | V_bval | V_bvec | V_NIFTI

text \<open>
  The collaborators of the validator: reading a file, the content validators, the
  header reader and the two cross-file checks.  The content validators, the header
  reader and the cross-file checks are not part of the sources at hand.
  \<^verbatim>\<open>src/utils/files/readFile.js\<close> is, but it returns a promise, whereas \<^verbatim>\<open>fullTest\<close>
  calls \<^verbatim>\<open>utils.files.readFile(file, callback)\<close>; here the contents that reach the
  callback are what \<open>readFile\<close> gives for the file.
  \<open>'j\<close> is a parsed JSON object, \<open>'h\<close> a NIfTI header.
\<close>

record ('j, 'h) collaborators =
  readFile :: "fileRef \<Rightarrow> string"
  TSV :: "fileRef \<Rightarrow> string \<Rightarrow> bool \<Rightarrow> issue list"
  json :: "fileRef \<Rightarrow> string \<Rightarrow> issue list \<times> 'j option"
  TaskName :: "'j \<Rightarrow> string option"
  bvec :: "fileRef \<Rightarrow> string \<Rightarrow> issue list"
  bval :: "fileRef \<Rightarrow> string \<Rightarrow> issue list"
  readNiftiHeader :: "fileRef \<Rightarrow> issue + 'h"
  NIFTI :: "'h option \<Rightarrow> fileRef \<Rightarrow> (string \<rightharpoonup> 'j option) \<Rightarrow> (string \<rightharpoonup> string) \<Rightarrow>
            fileRef list \<Rightarrow> string list \<Rightarrow> issue list"
  headerFields :: "(fileRef \<times> 'h) list \<Rightarrow> issue list"
  session :: "fileRef list \<Rightarrow> issue list"
  issues_table :: issueTable

record summary =
  sessions :: "string list"
  subjects :: "string list"
  tasks :: "string list"
  modalities :: "string list"
  totalFiles :: nat
  size_total :: nat

text \<open>
  The state of one run of \<^verbatim>\<open>fullTest\<close>: \<^verbatim>\<open>BIDS.issues\<close>, the local variables of
  \<^verbatim>\<open>fullTest\<close>, and a log of the content validators that were called, with the file
  each was called on.
\<close>

record ('j, 'h) run_state =
  issues :: "issue list"
  jsonContentsDict :: "string \<rightharpoonup> 'j option"
  bContentsDict :: "string \<rightharpoonup> string"
  events :: "string list"
  niftis :: "fileRef list"
  headers :: "(fileRef \<times> 'h) list"
  summary :: summary
  invoked :: "(validator \<times> fileRef) list"

subsection \<open>\<^verbatim>\<open>parseOptions\<close>\<close>

definition parseOptions :: "options \<Rightarrow> options" where
  "parseOptions opts =
     \<lparr>ignoreWarnings = (if ignoreWarnings opts then True else False),
      ignoreNiftiHeaders = (if ignoreNiftiHeaders opts then True else False)\<rparr>"

subsection \<open>\<^verbatim>\<open>quickTest\<close>\<close>

text \<open>The condition of the \<^verbatim>\<open>if\<close>, on the reversed segments of the path.\<close>

definition looksLikeScan :: "string list \<Rightarrow> bool" where
  "looksLikeScan path =
     ((case at path 0 of None \<Rightarrow> False | Some p0 \<Rightarrow> includesStr p0 ''.nii'') \<and>
      (at path 1 = Some ''anat'' \<or> at path 1 = Some ''func'' \<or> at path 1 = Some ''dwi'') \<and>
      ((truthy (at path 2) \<and> (case at path 2 of None \<Rightarrow> False | Some p2 \<Rightarrow> indexOf p2 ''ses-'' = Some 0)) \<or>
       (truthy (at path 2) \<and> (case at path 2 of None \<Rightarrow> False | Some p2 \<Rightarrow> indexOf p2 ''sub-'' = Some 0))))"

text \<open>The loop over the file list; \<^verbatim>\<open>break\<close> returns, \<^verbatim>\<open>continue\<close> goes on with the
  rest of the list.  The result is the argument of the callback.\<close>

fun quickTest :: "fileRef list \<Rightarrow> bool" where
  "quickTest [] = False"
| "quickTest (f # fileList) =
     (let path = relativePath f in
      if path \<noteq> [] then
        (let path = split path CHR ''/'' in
         if at path 1 = Some ''derivatives'' then quickTest fileList
         else
           (let path = rev path in
            if looksLikeScan path then True else quickTest fileList))
      else quickTest fileList)"

subsection \<open>\<^verbatim>\<open>groupModalities\<close>\<close>

definition modalityGroups :: "(string list \<times> string) list" where
  "modalityGroups =
     [([''magnitude1'', ''magnitude2'', ''phase1'', ''phase2''], ''fieldmap''),
      ([''magnitude1'', ''magnitude2'', ''phasediff''], ''fieldmap''),
      ([''magnitude'', ''fieldmap''], ''fieldmap''),
      ([''epi''], ''fieldmap'')]"

text \<open>\<^verbatim>\<open>xs.indexOf(x)\<close> on an array; \<open>None\<close> stands for \<open>-1\<close>.\<close>

fun indexOfArr :: "'a list \<Rightarrow> 'a \<Rightarrow> nat option" where
  "indexOfArr [] x = None"
| "indexOfArr (y # ys) x = (if y = x then Some 0 else map_option Suc (indexOfArr ys x))"

text \<open>\<^verbatim>\<open>xs.splice(xs.indexOf(x), 1)\<close>: the start index \<open>-1\<close> is the last element.\<close>

definition spliceOut :: "'a list \<Rightarrow> 'a \<Rightarrow> 'a list" where
  "spliceOut xs x =
     (case indexOfArr xs x of
        None \<Rightarrow> butlast xs
      | Some i \<Rightarrow> take i xs @ drop (Suc i) xs)"

text \<open>The first inner loop: \<^verbatim>\<open>match\<close> after the loop over \<^verbatim>\<open>groupSet\<close>.\<close>

definition groupMatch :: "string list \<Rightarrow> string list \<Rightarrow> bool" where
  "groupMatch mods groupSet =
     fold (\<lambda>g match. if indexOfArr mods g = None then False else match) groupSet True"

text \<open>One turn of the outer loop.\<close>

definition applyGroup :: "string list \<times> string \<Rightarrow> string list \<Rightarrow> string list" where
  "applyGroup groupTouple mods =
     (let groupSet = fst groupTouple; groupName = snd groupTouple in
      if groupMatch mods groupSet
      then fold (\<lambda>g ms. spliceOut ms g) groupSet (mods @ [groupName])
      else mods)"

definition groupModalities :: "string list \<Rightarrow> string list" where
  "groupModalities mods = fold applyGroup modalityGroups mods"

subsection \<open>\<^verbatim>\<open>formatIssues\<close>\<close>

text \<open>A key of \<^verbatim>\<open>categorized\<close>: the decimal numeral of the issue code, which is how
  an integer below \<open>10\<^sup>2\<^sup>1\<close> is turned into a property name.\<close>

fun decimal :: "nat \<Rightarrow> string" where
  "decimal n =
     (if n < 10 then [char_of (48 + n)]
      else decimal (n div 10) @ [char_of (48 + n mod 10)])"

declare decimal.simps [simp del]

text \<open>An entry of \<^verbatim>\<open>categorized\<close>, and an element of \<^verbatim>\<open>errors\<close> and \<^verbatim>\<open>warnings\<close>:
  the table entry with its \<^verbatim>\<open>files\<close> and, once set, its \<^verbatim>\<open>code\<close>.\<close>

record issueGroup =
  gcode :: string
  gtype :: issueType
  files :: "issue list"

datatype exn = TypeError

text \<open>
  \<^verbatim>\<open>categorized\<close> is an object.  \<^verbatim>\<open>for (key in categorized)\<close> visits the keys that are
  array indices (the numerals of the integers below \<open>2\<^sup>3\<^sup>2 - 1\<close>) first, in ascending
  numeric order, and the other keys after them in the order in which they were
  created.  The object is kept as a list of (code, entry) in the order of that visit.
\<close>

type_synonym categorized = "(nat \<times> issueType \<times> issue list) list"

definition arrayIndex :: "nat \<Rightarrow> bool" where
  "arrayIndex k \<longleftrightarrow> k < 4294967295"

text \<open>\<^verbatim>\<open>categorized[issue.code] = utils.issues[issue.code]\<close> followed by
  \<^verbatim>\<open>categorized[issue.code].files = []\<close>, for a table entry \<open>t\<close>.\<close>

fun createEntry :: "nat \<Rightarrow> issueType \<Rightarrow> categorized \<Rightarrow> categorized" where
  "createEntry k t [] = [(k, t, [])]"
| "createEntry k t ((k', e) # cat) =
     (if arrayIndex k \<and> (\<not> arrayIndex k' \<or> k < k') then (k, t, []) # (k', e) # cat
      else if k = k' then (k, t, []) # cat
      else (k', e) # createEntry k t cat)"

fun pushFile :: "nat \<Rightarrow> issue \<Rightarrow> categorized \<Rightarrow> categorized" where
  "pushFile k i [] = []"
| "pushFile k i ((k', t, fs) # cat) =
     (if k = k' then (k', t, fs @ [i]) # cat else (k', t, fs) # pushFile k i cat)"

text \<open>The first loop.  A code that the table does not know makes
  \<^verbatim>\<open>categorized[issue.code].files = []\<close> throw.\<close>

fun categorize :: "issueTable \<Rightarrow> issue list \<Rightarrow> categorized \<Rightarrow> exn + categorized" where
  "categorize table [] cat = Inr cat"
| "categorize table (i # is) cat =
     (case map_of cat (code i) of
        Some e \<Rightarrow> categorize table is (pushFile (code i) i cat)
      | None \<Rightarrow>
          (case table (code i) of
             None \<Rightarrow> Inl TypeError
           | Some t \<Rightarrow> categorize table is (pushFile (code i) i (createEntry (code i) t cat))))"

text \<open>
  \<^verbatim>\<open>issue.files.sort(function (a, b) {...})\<close> with the comparison of the relative
  paths: a stable sort by the path (\<^verbatim>\<open>Array.prototype.sort\<close> keeps the order of the
  elements that the comparison function takes for equal, as the language requires since
  ECMAScript 2019), strings being ordered by their code units.
\<close>

definition sortFiles :: "issue list \<Rightarrow> issue list" where
  "sortFiles fs = sort_key (\<lambda>a. relativePath (issue_file a)) fs"

text \<open>The second loop, with \<^verbatim>\<open>errors\<close> and \<^verbatim>\<open>warnings\<close> as accumulators.\<close>

fun bySeverity :: "options \<Rightarrow> categorized \<Rightarrow> issueGroup list \<times> issueGroup list \<Rightarrow>
    issueGroup list \<times> issueGroup list" where
  "bySeverity opts [] (errors, warnings) = (errors, warnings)"
| "bySeverity opts ((key, t, fs) # cat) (errors, warnings) =
     (let issue = \<lparr>gcode = decimal key, gtype = t, files = sortFiles fs\<rparr> in
      if severity t = ''error'' then bySeverity opts cat (errors @ [issue], warnings)
      else if severity t = ''warning'' \<and> \<not> ignoreWarnings opts
        then bySeverity opts cat (errors, warnings @ [issue])
      else bySeverity opts cat (errors, warnings))"

definition formatIssues :: "issueTable \<Rightarrow> options \<Rightarrow> issue list \<Rightarrow>
    exn + (issueGroup list \<times> issueGroup list)" where
  "formatIssues table opts iss =
     (case categorize table iss [] of
        Inl e \<Rightarrow> Inl e
      | Inr cat \<Rightarrow> Inr (bySeverity opts cat ([], [])))"


subsection \<open>\<^verbatim>\<open>fullTest\<close>\<close>

text \<open>
  \<^verbatim>\<open>item.slice(0, item.indexOf(w))\<close>: the end index \<open>-1\<close> stops before the last
  character.
\<close>

definition sliceTo :: "string \<Rightarrow> string \<Rightarrow> string" where
  "sliceTo item w = (case indexOf item w of None \<Rightarrow> butlast item | Some j \<Rightarrow> take j item)"

text \<open>One turn of the loop over \<^verbatim>\<open>checks\<close>, on the list \<^verbatim>\<open>summary[checks[checkKey]]\<close>.\<close>

definition collectLabel :: "string \<Rightarrow> string \<Rightarrow> string list \<Rightarrow> string list" where
  "collectLabel checkKey path labels =
     (if path \<noteq> [] \<and> indexOf path (checkKey @ ''-'') \<noteq> None then
        (let item = drop (the (indexOf path (checkKey @ ''-''))) path;
             item = sliceTo item ''/'';
             item = (if indexOf item ''_'' \<noteq> None then sliceTo item ''_'' else item);
             item = drop (length checkKey + 1) item
         in if indexOfArr labels item = None then labels @ [item] else labels)
      else labels)"

text \<open>The statistics collected for every file, before its path is looked at.\<close>

definition collectStats :: "fileRef \<Rightarrow> summary \<Rightarrow> summary" where
  "collectStats f sm =
     sm\<lparr>size_total := size_total sm + fileSize f,
        sessions := collectLabel ''ses'' (relativePath f) (sessions sm),
        subjects := collectLabel ''sub'' (relativePath f) (subjects sm)\<rparr>"

text \<open>The modality of a NIfTI file: what follows the last underscore of the path, up to
  its first dot.\<close>

definition modalityOf :: "string \<Rightarrow> string" where
  "modalityOf path = (let pathParts = split path CHR ''_''; suffix = last pathParts
                      in sliceTo suffix ''.'')"

text \<open>
  The function that \<^verbatim>\<open>async.forEachOf\<close> runs on each file of the list, up to its
  call of \<^verbatim>\<open>cb\<close>, with the contents of the file as \<^verbatim>\<open>readFile\<close> hands them over.
\<close>

definition validateFile ::
    "('j, 'h) collaborators \<Rightarrow> fileRef \<Rightarrow> ('j, 'h) run_state \<Rightarrow> ('j, 'h) run_state" where
  "validateFile env f st0 =
     (let path = relativePath f;
          st = st0\<lparr>summary := collectStats f (summary st0)\<rparr>
      in
      if \<not> isBIDS path then
        st\<lparr>issues := issues st @ [\<lparr>issue_file = f, evidence = name f, code = 1\<rparr>]\<rparr>
      else if endsWith (name f) ''.nii'' \<or> endsWith (name f) ''.nii.gz'' then
        (let suffix = modalityOf path;
             sm = summary st
         in st\<lparr>niftis := niftis st @ [f],
               summary := (if indexOfArr (modalities sm) suffix = None
                           then sm\<lparr>modalities := modalities sm @ [suffix]\<rparr> else sm)\<rparr>)
      else if name f \<noteq> [] \<and> endsWith (name f) ''.tsv'' then
        (let contents = readFile env f;
             isEvents = endsWith (name f) ''_events.tsv''
         in st\<lparr>events := (if isEvents then events st @ [path] else events st),
               issues := issues st @ TSV env f contents isEvents,
               invoked := invoked st @ [(V_TSV, f)]\<rparr>)
      else if name f \<noteq> [] \<and> endsWith (name f) ''.bvec'' then
        (let contents = readFile env f
         in st\<lparr>bContentsDict := (bContentsDict st)(path \<mapsto> contents),
               issues := issues st @ bvec env f contents,
               invoked := invoked st @ [(V_bvec, f)]\<rparr>)
      else if name f \<noteq> [] \<and> endsWith (name f) ''.bval'' then
        (let contents = readFile env f
         in st\<lparr>bContentsDict := (bContentsDict st)(path \<mapsto> contents),
               issues := issues st @ bval env f contents,
               invoked := invoked st @ [(V_bval, f)]\<rparr>)
      else if name f \<noteq> [] \<and> endsWith (name f) ''.json'' then
        (let contents = readFile env f;
             (iss, jsObj) = json env f contents;
             sm = summary st;
             task = (if indexOf (name f) ''task'' \<noteq> None
                     then (case jsObj of None \<Rightarrow> None | Some obj \<Rightarrow> TaskName env obj)
                     else None)
         in st\<lparr>issues := issues st @ iss,
               jsonContentsDict := (jsonContentsDict st)(path \<mapsto> jsObj),
               summary := (if truthy task \<and> indexOfArr (tasks sm) (the task) = None
                           then sm\<lparr>tasks := tasks sm @ [the task]\<rparr> else sm),
               invoked := invoked st @ [(V_JSON, f)]\<rparr>)
      else st)"

text \<open>
  The first \<^verbatim>\<open>async.forEachOf\<close>: the files one after the other, in the order of the
  list (the order in which callbacks complete is not modelled).
\<close>

definition phase1 ::
    "('j, 'h) collaborators \<Rightarrow> fileRef list \<Rightarrow> ('j, 'h) run_state \<Rightarrow> ('j, 'h) run_state" where
  "phase1 env fileList st = fold (validateFile env) fileList st"

text \<open>The function of the second \<^verbatim>\<open>async.forEachOf\<close>, on each deferred NIfTI file.\<close>

definition validateNifti ::
    "('j, 'h) collaborators \<Rightarrow> options \<Rightarrow> fileRef list \<Rightarrow> fileRef \<Rightarrow>
     ('j, 'h) run_state \<Rightarrow> ('j, 'h) run_state" where
  "validateNifti env opts fileList f st =
     (if ignoreNiftiHeaders opts then
        st\<lparr>issues := issues st @
                NIFTI env None f (jsonContentsDict st) (bContentsDict st) fileList (events st),
           invoked := invoked st @ [(V_NIFTI, f)]\<rparr>
      else
        (case readNiftiHeader env f of
           Inl err \<Rightarrow> st\<lparr>issues := issues st @ [err]\<rparr>
         | Inr header \<Rightarrow>
             st\<lparr>headers := headers st @ [(f, header)],
                issues := issues st @
                  NIFTI env (Some header) f (jsonContentsDict st) (bContentsDict st) fileList
                    (events st),
                invoked := invoked st @ [(V_NIFTI, f)]\<rparr>))"

text \<open>The filter on the warnings: the loop that fills \<^verbatim>\<open>filteredWarnings\<close>.\<close>

definition fieldmapRelatedCodes :: "string list" where
  "fieldmapRelatedCodes = [''6'', ''7'', ''8'', ''9'']"

definition filterWarnings :: "issueGroup list \<Rightarrow> issueGroup list" where
  "filterWarnings warnings =
     fold (\<lambda>w filteredWarnings.
             if indexOfArr fieldmapRelatedCodes (gcode w) = None
             then filteredWarnings @ [w] else filteredWarnings) warnings []"

text \<open>The last callback of \<^verbatim>\<open>fullTest\<close>: the cross-file checks, \<^verbatim>\<open>formatIssues\<close>,
  \<^verbatim>\<open>groupModalities\<close> and the filter.  The result is the arguments of \<^verbatim>\<open>callback\<close>.\<close>

definition finish ::
    "('j, 'h) collaborators \<Rightarrow> options \<Rightarrow> fileRef list \<Rightarrow> ('j, 'h) run_state \<Rightarrow>
     exn + (issueGroup list \<times> issueGroup list \<times> summary)" where
  "finish env opts fileList st =
     (let iss = issues st @ headerFields env (headers st);
          iss = iss @ session env fileList
      in case formatIssues (issues_table env) opts iss of
           Inl e \<Rightarrow> Inl e
         | Inr (errors, warnings) \<Rightarrow>
             (let sm = (summary st)\<lparr>modalities := groupModalities (modalities (summary st))\<rparr>;
                  warnings = (if indexOfArr (modalities sm) ''fieldmap'' = None
                              then filterWarnings warnings else warnings)
              in Inr (errors, warnings, sm)))"

definition initial :: "fileRef list \<Rightarrow> ('j, 'h) run_state" where
  "initial fileList =
     \<lparr>issues = [], jsonContentsDict = Map.empty, bContentsDict = Map.empty, events = [],
      niftis = [], headers = [],
      summary = \<lparr>sessions = [], subjects = [], tasks = [], modalities = [],
                 totalFiles = length fileList, size_total = 0\<rparr>,
      invoked = []\<rparr>"

text \<open>The second \<^verbatim>\<open>async.forEachOf\<close>, over the NIfTI files that the first one set aside.\<close>

definition phase2 ::
    "('j, 'h) collaborators \<Rightarrow> options \<Rightarrow> fileRef list \<Rightarrow>
     ('j, 'h) run_state \<Rightarrow> ('j, 'h) run_state" where
  "phase2 env opts fileList st = fold (validateNifti env opts fileList) (niftis st) st"

definition fullTest ::
    "('j, 'h) collaborators \<Rightarrow> options \<Rightarrow> fileRef list \<Rightarrow>
     exn + (issueGroup list \<times> issueGroup list \<times> summary)" where
  "fullTest env opts fileList =
     (let st = phase1 env fileList (initial fileList);
          st = phase2 env opts fileList st
      in finish env opts fileList st)"

subsection \<open>\<^verbatim>\<open>start\<close>\<close>

datatype outcome =
    Invalid
  | Thrown exn
  | Validated "issueGroup list" "issueGroup list" summary

text \<open>\<^verbatim>\<open>start\<close>, on the file list that \<^verbatim>\<open>utils.files.readDir\<close> hands over; the options
  may be missing.\<close>

definition start ::
    "('j, 'h) collaborators \<Rightarrow> options option \<Rightarrow> fileRef list \<Rightarrow> outcome" where
  "start env options_arg fileList =
     (let opts = (case options_arg of
                    None \<Rightarrow> \<lparr>ignoreWarnings = False, ignoreNiftiHeaders = False\<rparr>
                  | Some opts \<Rightarrow> parseOptions opts)
      in if quickTest fileList then
           (case fullTest env opts fileList of
              Inl e \<Rightarrow> Thrown e
            | Inr (errors, warnings, sm) \<Rightarrow> Validated errors warnings sm)
         else Invalid)"


section \<open>Notions used in the proofs\<close>








text \<open>The order in which \<^verbatim>\<open>for (key in categorized)\<close> visits the keys: a new key among
  the keys so far, and the keys after the first loop has run over the issues.\<close>

fun placeKey :: "nat \<Rightarrow> nat list \<Rightarrow> nat list" where
  "placeKey k [] = [k]"
| "placeKey k (k' # ks) =
     (if arrayIndex k \<and> (\<not> arrayIndex k' \<or> k < k') then k # k' # ks
      else if k = k' then k # ks
      else k' # placeKey k ks)"

definition keyOrder :: "issue list \<Rightarrow> nat list \<Rightarrow> nat list" where
  "keyOrder iss ks = fold (\<lambda>i ks. if code i \<in> set ks then ks else placeKey (code i) ks) iss ks"

text \<open>The entry of \<open>categorized\<close> under a key after the first loop has run over \<open>iss\<close>
  from \<open>cat\<close>, and the element of the output made for a code.\<close>

definition grown ::
    "issueTable \<Rightarrow> issue list \<Rightarrow> categorized \<Rightarrow> nat \<Rightarrow> (issueType \<times> issue list) option" where
  "grown table iss cat k =
     (case map_of cat k of
        Some (t, fs) \<Rightarrow> Some (t, fs @ filter (\<lambda>i. code i = k) iss)
      | None \<Rightarrow> if k \<in> code ` set iss
                then Some (the (table k), filter (\<lambda>i. code i = k) iss) else None)"

definition groupOf :: "issueTable \<Rightarrow> issue list \<Rightarrow> nat \<Rightarrow> issueGroup" where
  "groupOf table iss k =
     \<lparr>gcode = decimal k, gtype = the (table k),
      files = sortFiles (filter (\<lambda>i. code i = k) iss)\<rparr>"

text \<open>Every file that the state of a run holds, in any of its collections, has a path
  that \<open>isBIDS\<close> accepts.\<close>

definition validOnly :: "('j, 'h) run_state \<Rightarrow> bool" where
  "validOnly st \<longleftrightarrow>
     (\<forall>g \<in> set (niftis st). isBIDS (relativePath g)) \<and>
     (\<forall>e \<in> set (invoked st). isBIDS (relativePath (snd e))) \<and>
     (\<forall>p \<in> set (events st). isBIDS p) \<and>
     (\<forall>p \<in> dom (jsonContentsDict st). isBIDS p) \<and>
     (\<forall>p \<in> dom (bContentsDict st). isBIDS p) \<and>
     (\<forall>e \<in> set (headers st). isBIDS (relativePath (fst e)))"

text \<open>The content validators of the first phase report issues on the file that they are
  given only.\<close>

definition ownIssues :: "('j, 'h) collaborators \<Rightarrow> bool" where
  "ownIssues env \<longleftrightarrow>
     (\<forall>g c e. \<forall>i \<in> set (TSV env g c e). issue_file i = g) \<and>
     (\<forall>g c. \<forall>i \<in> set (fst (json env g c)). issue_file i = g) \<and>
     (\<forall>g c. \<forall>i \<in> set (bvec env g c). issue_file i = g) \<and>
     (\<forall>g c. \<forall>i \<in> set (bval env g c). issue_file i = g)"

text \<open>Collaborators that find nothing, for the examples: every content validator
  returns no issue, every header can be read, and the table of issues is given.\<close>

definition quiet :: "issueTable \<Rightarrow> (unit, unit) collaborators" where
  "quiet table =
     \<lparr>readFile = (\<lambda>f. []), TSV = (\<lambda>f c e. []), json = (\<lambda>f c. ([], None)),
      TaskName = (\<lambda>j. None), bvec = (\<lambda>f c. []), bval = (\<lambda>f c. []),
      readNiftiHeader = (\<lambda>f. Inr ()), NIFTI = (\<lambda>h f j b fl ev. []),
      headerFields = (\<lambda>hs. []), session = (\<lambda>fl. []), issues_table = table\<rparr>"

section \<open>Properties of \<^verbatim>\<open>groupModalities\<close>\<close>

lemma indexOfArr_None: "indexOfArr xs x = None \<longleftrightarrow> x \<notin> set xs"
  by (induction xs) auto

lemma indexOfArr_Some:
  "indexOfArr xs x = Some i \<Longrightarrow> i < length xs \<and> xs ! i = x \<and> x \<notin> set (take i xs)"
  by (induction xs arbitrary: i) (auto split: if_splits)

lemma groupMatch_fold:
  "fold (\<lambda>g match. if indexOfArr ms g = None then False else match) gs b
     = (b \<and> set gs \<subseteq> set ms)"
  by (induction gs arbitrary: b) (auto simp: indexOfArr_None)

lemma groupMatch_iff: "groupMatch ms gs \<longleftrightarrow> set gs \<subseteq> set ms"
  by (simp add: groupMatch_def groupMatch_fold)

text \<open>Splicing out an element that is present removes one occurrence of it.\<close>

lemma mset_spliceOut:
  assumes "x \<in> set xs"
  shows "mset (spliceOut xs x) = mset xs - {#x#}"
proof -
  from assms obtain i where i: "indexOfArr xs x = Some i"
    by (cases "indexOfArr xs x") (auto simp: indexOfArr_None)
  have "i < length xs" "xs ! i = x"
    using indexOfArr_Some[OF i] by auto
  then have "xs = take i xs @ x # drop (Suc i) xs"
    by (metis id_take_nth_drop)
  then have "mset xs = mset (take i xs @ drop (Suc i) xs) + {#x#}"
    by (metis add_mset_add_single mset.simps(2) mset_append union_mset_add_mset_right)
  then show ?thesis
    using i by (simp add: spliceOut_def)
qed

lemma mset_fold_spliceOut:
  "mset gs \<subseteq># mset xs \<Longrightarrow> mset (fold (\<lambda>g ms. spliceOut ms g) gs xs) = mset xs - mset gs"
proof (induction gs arbitrary: xs)
  case Nil
  then show ?case by simp
next
  case (Cons g gs)
  from Cons.prems have g: "g \<in> set xs"
    by (metis mset.simps(2) set_mset_mset mset_subset_eq_insertD)
  have "mset gs \<subseteq># mset xs - {#g#}"
    using Cons.prems by (simp add: insert_subset_eq_iff)
  then have "mset (fold (\<lambda>g ms. spliceOut ms g) gs (spliceOut xs g))
      = mset (spliceOut xs g) - mset gs"
    using Cons.IH[of "spliceOut xs g"] g by (simp add: mset_spliceOut)
  then show ?case
    using g by (simp add: mset_spliceOut)
qed

lemma distinct_mset_subseteq:
  assumes "distinct gs" "set gs \<subseteq> set xs"
  shows "mset gs \<subseteq># mset xs"
proof (rule mset_subset_eqI)
  fix a
  show "count (mset gs) a \<le> count (mset xs) a"
  proof (cases "a \<in> set gs")
    case True
    then have "count (mset gs) a = 1"
      using assms(1) by (simp add: distinct_count_atmost_1)
    moreover have "a \<in> set xs"
      using True assms(2) by auto
    then have "1 \<le> count (mset xs) a"
      by (metis count_greater_eq_one_iff set_mset_mset)
    ultimately show ?thesis by simp
  next
    case False
    then have "count (mset gs) a = 0"
      by (simp add: count_list_0_iff)
    then show ?thesis by linarith
  qed
qed

lemma applyGroup_match:
  assumes "distinct (fst r)" "set (fst r) \<subseteq> set w"
  shows "mset (applyGroup r w) = mset w + {#snd r#} - mset (fst r)"
proof -
  have "mset (fst r) \<subseteq># mset (w @ [snd r])"
    using assms by (intro distinct_mset_subseteq) auto
  then show ?thesis
    using assms(2) by (simp add: applyGroup_def groupMatch_iff mset_fold_spliceOut)
qed

lemma applyGroup_nomatch: "\<not> set (fst r) \<subseteq> set w \<Longrightarrow> applyGroup r w = w"
  by (simp add: applyGroup_def groupMatch_iff)

lemma fold_take_Suc:
  "i < length xs \<Longrightarrow> fold f (take (Suc i) xs) a = f (xs ! i) (fold f (take i xs) a)"
  by (simp add: take_Suc_conv_app_nth)

lemma consumed_gone:
  assumes "distinct w" "distinct (fst r)" "set (fst r) \<subseteq> set w"
    and "g \<in> set (fst r)" "g \<noteq> snd r"
  shows "g \<notin> set (applyGroup r w)"
proof -
  have "count (mset w) g = 1"
    using assms by (auto simp: distinct_count_atmost_1)
  moreover have "count (mset (fst r)) g = 1"
    using assms by (auto simp: distinct_count_atmost_1)
  ultimately have "count (mset (applyGroup r w)) g = 0"
    using assms by (simp add: applyGroup_match)
  then show ?thesis
    by (simp add: count_list_0_iff)
qed

lemma rule_index: "i < length modalityGroups \<longleftrightarrow> i = 0 \<or> i = 1 \<or> i = 2 \<or> i = 3"
  by (auto simp: modalityGroups_def)

text \<open>
  C2.  The working list before rule \<open>i\<close> is the fold of \<open>applyGroup\<close> over the first
  \<open>i\<close> rules, and the result of \<open>groupModalities\<close> is the working list after the four
  rules.  Rule \<open>i\<close> is tested against that working list: when all its tokens are
  there, the next working list is the old one with one \<open>fieldmap\<close> added and
  one occurrence of each token of the rule taken away; otherwise the working list
  stays as it is.  When the input has no duplicates and rule \<open>i\<close> fires, a token
  that rule \<open>i\<close> shares with a later rule \<open>j\<close> is no longer in the working list of
  rule \<open>j\<close>, which therefore does not match.  On magnitude1, magnitude2, phase1,
  phase2, phasediff the result is phasediff, fieldmap.
\<close>

theorem groupModalities_sequential:
  "(\<forall>i < length modalityGroups.
      let w = fold applyGroup (take i modalityGroups) ms;
          r = modalityGroups ! i;
          w' = fold applyGroup (take (Suc i) modalityGroups) ms
      in (set (fst r) \<subseteq> set w \<longrightarrow> mset w' = mset w + {#''fieldmap''#} - mset (fst r))
       \<and> (\<not> set (fst r) \<subseteq> set w \<longrightarrow> w' = w)
       \<and> (distinct ms \<longrightarrow> set (fst r) \<subseteq> set w \<longrightarrow>
            (\<forall>j. i < j \<and> j < length modalityGroups \<longrightarrow>
               (\<forall>g \<in> set (fst r) \<inter> set (fst (modalityGroups ! j)).
                   g \<notin> set (fold applyGroup (take j modalityGroups) ms))
               \<and> (set (fst r) \<inter> set (fst (modalityGroups ! j)) \<noteq> {} \<longrightarrow>
                    \<not> groupMatch (fold applyGroup (take j modalityGroups) ms)
                         (fst (modalityGroups ! j))))))
   \<and> groupModalities ms = fold applyGroup (take (length modalityGroups) modalityGroups) ms
   \<and> groupModalities [''magnitude1'', ''magnitude2'', ''phase1'', ''phase2'', ''phasediff'']
        = [''phasediff'', ''fieldmap'']"
proof (intro conjI allI impI)
  fix i
  assume i: "i < length modalityGroups"
  let ?w = "fold applyGroup (take i modalityGroups) ms"
  let ?r = "modalityGroups ! i"
  have r: "distinct (fst ?r)" "snd ?r = ''fieldmap''"
    using i unfolding rule_index by (auto simp: modalityGroups_def)
  have step: "fold applyGroup (take (Suc i) modalityGroups) ms = applyGroup ?r ?w"
    using i by (rule fold_take_Suc)
  have a: "set (fst ?r) \<subseteq> set ?w \<longrightarrow>
      mset (applyGroup ?r ?w) = mset ?w + {#''fieldmap''#} - mset (fst ?r)"
    using applyGroup_match[OF r(1)] r(2) by auto
  have b: "\<not> set (fst ?r) \<subseteq> set ?w \<longrightarrow> applyGroup ?r ?w = ?w"
    by (simp add: applyGroup_nomatch)
  have c: "distinct ms \<longrightarrow> set (fst ?r) \<subseteq> set ?w \<longrightarrow>
            (\<forall>j. i < j \<and> j < length modalityGroups \<longrightarrow>
               (\<forall>g \<in> set (fst ?r) \<inter> set (fst (modalityGroups ! j)).
                   g \<notin> set (fold applyGroup (take j modalityGroups) ms)))"
  proof (intro impI allI ballI)
    fix j g
    assume d: "distinct ms" and m: "set (fst ?r) \<subseteq> set ?w"
      and j: "i < j \<and> j < length modalityGroups"
      and g: "g \<in> set (fst ?r) \<inter> set (fst (modalityGroups ! j))"
    have ic: "i = 0 \<or> i = 1 \<or> i = 2 \<or> i = 3"
      using i by (simp only: rule_index)
    have jc: "j = 0 \<or> j = 1 \<or> j = 2 \<or> j = 3"
      using j by (simp only: rule_index)
    have lt: "i < j"
      using j by simp
    from ic jc lt g have ij: "i = 0 \<and> j = 1"
      by (elim disjE) (simp_all add: modalityGroups_def)
    have w0: "?w = ms"
      using ij by simp
    have "g \<notin> set (applyGroup ?r ms)"
      using consumed_gone[OF d r(1), of g] m g w0 r(2) ij by (auto simp: modalityGroups_def)
    moreover have "fold applyGroup (take j modalityGroups) ms = applyGroup ?r ms"
      using ij by (simp add: modalityGroups_def)
    ultimately show "g \<notin> set (fold applyGroup (take j modalityGroups) ms)"
      by simp
  qed
  show "let w = ?w; r = ?r; w' = fold applyGroup (take (Suc i) modalityGroups) ms
      in (set (fst r) \<subseteq> set w \<longrightarrow> mset w' = mset w + {#''fieldmap''#} - mset (fst r))
       \<and> (\<not> set (fst r) \<subseteq> set w \<longrightarrow> w' = w)
       \<and> (distinct ms \<longrightarrow> set (fst r) \<subseteq> set w \<longrightarrow>
            (\<forall>j. i < j \<and> j < length modalityGroups \<longrightarrow>
               (\<forall>g \<in> set (fst r) \<inter> set (fst (modalityGroups ! j)).
                   g \<notin> set (fold applyGroup (take j modalityGroups) ms))
               \<and> (set (fst r) \<inter> set (fst (modalityGroups ! j)) \<noteq> {} \<longrightarrow>
                    \<not> groupMatch (fold applyGroup (take j modalityGroups) ms)
                         (fst (modalityGroups ! j)))))"
    unfolding Let_def step using a b c by (auto simp: groupMatch_iff)
next
  show "groupModalities ms = fold applyGroup (take (length modalityGroups) modalityGroups) ms"
    by (simp add: groupModalities_def)
next
  show "groupModalities [''magnitude1'', ''magnitude2'', ''phase1'', ''phase2'', ''phasediff'']
        = [''phasediff'', ''fieldmap'']"
    by code_simp
qed

theorem groupModalities_sequential_witness:
  "0 < length modalityGroups
   \<and> distinct [''magnitude1'', ''magnitude2'', ''phase1'', ''phase2'', ''phasediff'']
   \<and> set (fst (modalityGroups ! 0))
        \<subseteq> set [''magnitude1'', ''magnitude2'', ''phase1'', ''phase2'', ''phasediff'']
   \<and> set (fst (modalityGroups ! 0)) \<inter> set (fst (modalityGroups ! 1)) \<noteq> {}
   \<and> mset (fold applyGroup (take (Suc 0) modalityGroups)
              [''magnitude1'', ''magnitude2'', ''phase1'', ''phase2'', ''phasediff''])
        = {#''phasediff'', ''fieldmap''#}
   \<and> \<not> groupMatch
          (fold applyGroup (take 1 modalityGroups)
             [''magnitude1'', ''magnitude2'', ''phase1'', ''phase2'', ''phasediff''])
          (fst (modalityGroups ! 1))"
proof -
  let ?ms = "[''magnitude1'', ''magnitude2'', ''phase1'', ''phase2'', ''phasediff'']"
  have h0: "0 < length modalityGroups"
    by (simp add: modalityGroups_def)
  have h1: "distinct ?ms"
    by simp
  have h2: "set (fst (modalityGroups ! 0)) \<subseteq> set ?ms"
    by (simp add: modalityGroups_def)
  have h3: "set (fst (modalityGroups ! 0)) \<inter> set (fst (modalityGroups ! 1)) \<noteq> {}"
    by (simp add: modalityGroups_def)
  have h4: "(0::nat) < 1 \<and> 1 < length modalityGroups"
    by (simp add: modalityGroups_def)
  from groupModalities_sequential[of ?ms]
  have all: "\<forall>i < length modalityGroups.
      let w = fold applyGroup (take i modalityGroups) ?ms;
          r = modalityGroups ! i;
          w' = fold applyGroup (take (Suc i) modalityGroups) ?ms
      in (set (fst r) \<subseteq> set w \<longrightarrow> mset w' = mset w + {#''fieldmap''#} - mset (fst r))
       \<and> (\<not> set (fst r) \<subseteq> set w \<longrightarrow> w' = w)
       \<and> (distinct ?ms \<longrightarrow> set (fst r) \<subseteq> set w \<longrightarrow>
            (\<forall>j. i < j \<and> j < length modalityGroups \<longrightarrow>
               (\<forall>g \<in> set (fst r) \<inter> set (fst (modalityGroups ! j)).
                   g \<notin> set (fold applyGroup (take j modalityGroups) ?ms))
               \<and> (set (fst r) \<inter> set (fst (modalityGroups ! j)) \<noteq> {} \<longrightarrow>
                    \<not> groupMatch (fold applyGroup (take j modalityGroups) ?ms)
                         (fst (modalityGroups ! j)))))"
    by (rule conjunct1)
  from all have "0 < length modalityGroups \<longrightarrow>
     (let w = fold applyGroup (take 0 modalityGroups) ?ms;
          r = modalityGroups ! 0;
          w' = fold applyGroup (take (Suc 0) modalityGroups) ?ms
      in (set (fst r) \<subseteq> set w \<longrightarrow> mset w' = mset w + {#''fieldmap''#} - mset (fst r))
       \<and> (\<not> set (fst r) \<subseteq> set w \<longrightarrow> w' = w)
       \<and> (distinct ?ms \<longrightarrow> set (fst r) \<subseteq> set w \<longrightarrow>
            (\<forall>j. 0 < j \<and> j < length modalityGroups \<longrightarrow>
               (\<forall>g \<in> set (fst r) \<inter> set (fst (modalityGroups ! j)).
                   g \<notin> set (fold applyGroup (take j modalityGroups) ?ms))
               \<and> (set (fst r) \<inter> set (fst (modalityGroups ! j)) \<noteq> {} \<longrightarrow>
                    \<not> groupMatch (fold applyGroup (take j modalityGroups) ?ms)
                         (fst (modalityGroups ! j))))))"
    by (rule spec)
  with h0 have at0:
    "(set (fst (modalityGroups ! 0)) \<subseteq> set ?ms \<longrightarrow>
        mset (fold applyGroup (take (Suc 0) modalityGroups) ?ms)
          = mset ?ms + {#''fieldmap''#} - mset (fst (modalityGroups ! 0)))
     \<and> (distinct ?ms \<longrightarrow> set (fst (modalityGroups ! 0)) \<subseteq> set ?ms \<longrightarrow>
            (\<forall>j. 0 < j \<and> j < length modalityGroups \<longrightarrow>
               (set (fst (modalityGroups ! 0)) \<inter> set (fst (modalityGroups ! j)) \<noteq> {} \<longrightarrow>
                    \<not> groupMatch (fold applyGroup (take j modalityGroups) ?ms)
                         (fst (modalityGroups ! j)))))"
    unfolding Let_def take_0 fold_simps by blast
  from at0 h2 have m: "mset (fold applyGroup (take (Suc 0) modalityGroups) ?ms)
          = mset ?ms + {#''fieldmap''#} - mset (fst (modalityGroups ! 0))"
    by blast
  have m': "mset ?ms + {#''fieldmap''#} - mset (fst (modalityGroups ! 0))
      = {#''phasediff'', ''fieldmap''#}"
    by (simp add: modalityGroups_def)
  from at0 h1 h2 h3 h4 have n: "\<not> groupMatch (fold applyGroup (take 1 modalityGroups) ?ms)
                         (fst (modalityGroups ! 1))"
    by blast
  show ?thesis
    using h0 h1 h2 h3 m m' n by simp
qed

text \<open>
  C3.  \<open>groupModalities\<close> on the three test inputs: magnitude1, magnitude2, phasediff
  gives fieldmap; epi gives fieldmap; bold is returned unchanged.
\<close>

theorem groupModalities_examples:
  "groupModalities [''magnitude1'', ''magnitude2'', ''phasediff''] = [''fieldmap'']
   \<and> groupModalities [''epi''] = [''fieldmap'']
   \<and> groupModalities [''bold''] = [''bold'']"
  by code_simp

text \<open>
  C9.  The list that \<open>groupModalities\<close> returns for an input without duplicates can
  hold \<open>fieldmap\<close> twice: rule 2 and rule 4 both fire on magnitude1, magnitude2,
  phasediff, epi, and each pushes \<open>fieldmap\<close> without looking for it first.
\<close>

theorem groupModalities_duplicate_fieldmap:
  "distinct [''magnitude1'', ''magnitude2'', ''phasediff'', ''epi'']
   \<and> groupModalities [''magnitude1'', ''magnitude2'', ''phasediff'', ''epi'']
        = [''fieldmap'', ''fieldmap'']
   \<and> \<not> distinct (groupModalities [''magnitude1'', ''magnitude2'', ''phasediff'', ''epi''])"
  by code_simp
section \<open>Properties of \<^verbatim>\<open>formatIssues\<close>\<close>

subsection \<open>The second loop\<close>

lemma bySeverity_closed:
  "bySeverity opts cat (es, ws) =
     (es @ map (\<lambda>(key, t, fs). \<lparr>gcode = decimal key, gtype = t, files = sortFiles fs\<rparr>)
             (filter (\<lambda>(k, t, fs). severity t = ''error'') cat),
      ws @ map (\<lambda>(key, t, fs). \<lparr>gcode = decimal key, gtype = t, files = sortFiles fs\<rparr>)
             (filter (\<lambda>(k, t, fs). severity t = ''warning'' \<and> \<not> ignoreWarnings opts) cat))"
proof (induction cat arbitrary: es ws)
  case Nil
  then show ?case by simp
next
  case (Cons e cat)
  obtain k t fs where e: "e = (k, t, fs)"
    by (cases e) auto
  show ?case
    unfolding e by (simp add: Cons.IH Let_def)
qed

lemma formatIssues_closed:
  "formatIssues table opts iss =
     (case categorize table iss [] of
        Inl e \<Rightarrow> Inl e
      | Inr cat \<Rightarrow>
          Inr (map (\<lambda>(key, t, fs). \<lparr>gcode = decimal key, gtype = t, files = sortFiles fs\<rparr>)
                 (filter (\<lambda>(k, t, fs). severity t = ''error'') cat),
               map (\<lambda>(key, t, fs). \<lparr>gcode = decimal key, gtype = t, files = sortFiles fs\<rparr>)
                 (filter (\<lambda>(k, t, fs). severity t = ''warning'' \<and> \<not> ignoreWarnings opts) cat)))"
  by (simp add: formatIssues_def bySeverity_closed split: sum.splits)

lemma formatIssues_ignoreWarnings:
  "formatIssues table (opts\<lparr>ignoreWarnings := True\<rparr>) iss =
     (case formatIssues table (opts\<lparr>ignoreWarnings := False\<rparr>) iss of
        Inl e \<Rightarrow> Inl e
      | Inr (errors, warnings) \<Rightarrow> Inr (errors, []))"
  by (simp add: formatIssues_closed split: sum.splits)

subsection \<open>The filter on the warnings\<close>

lemma filterWarnings_fold:
  "fold (\<lambda>w filteredWarnings.
           if indexOfArr fieldmapRelatedCodes (gcode w) = None
           then filteredWarnings @ [w] else filteredWarnings) ws acc
     = acc @ filter (\<lambda>w. gcode w \<notin> set fieldmapRelatedCodes) ws"
  by (induction ws arbitrary: acc) (auto simp: indexOfArr_None)

lemma filterWarnings_eq:
  "filterWarnings ws = filter (\<lambda>w. gcode w \<notin> set fieldmapRelatedCodes) ws"
  by (simp add: filterWarnings_def filterWarnings_fold)

lemma finish_ignoreWarnings:
  "finish env (opts\<lparr>ignoreWarnings := True\<rparr>) fl st =
     (case finish env (opts\<lparr>ignoreWarnings := False\<rparr>) fl st of
        Inl e \<Rightarrow> Inl e
      | Inr (errors, warnings, sm) \<Rightarrow> Inr (errors, [], sm))"
  by (simp add: finish_def formatIssues_ignoreWarnings Let_def filterWarnings_eq
      split: sum.splits prod.splits)

lemma fullTest_ignoreWarnings:
  "fullTest env (opts\<lparr>ignoreWarnings := True\<rparr>) fl =
     (case fullTest env (opts\<lparr>ignoreWarnings := False\<rparr>) fl of
        Inl e \<Rightarrow> Inl e
      | Inr (errors, warnings, sm) \<Rightarrow> Inr (errors, [], sm))"
proof -
  have "validateNifti env (opts\<lparr>ignoreWarnings := True\<rparr>) fl
      = validateNifti env (opts\<lparr>ignoreWarnings := False\<rparr>) fl"
    by (intro ext) (simp add: validateNifti_def)
  then show ?thesis
    by (simp add: fullTest_def phase2_def Let_def finish_ignoreWarnings)
qed

text \<open>
  C6.  With \<open>ignoreWarnings\<close> set, \<open>formatIssues\<close> returns the errors it returns without
  it, and no warnings, whatever the issues are; \<open>fullTest\<close> and \<open>start\<close> hand over the
  same errors and the same summary, and no warnings; a thrown exception is the
  same.  \<open>parseOptions\<close> keeps the flag.
\<close>

theorem ignoreWarnings_empties_warnings_only:
  "formatIssues table (opts\<lparr>ignoreWarnings := True\<rparr>) iss =
     (case formatIssues table (opts\<lparr>ignoreWarnings := False\<rparr>) iss of
        Inl e \<Rightarrow> Inl e
      | Inr (errors, warnings) \<Rightarrow> Inr (errors, []))
   \<and> fullTest env (opts\<lparr>ignoreWarnings := True\<rparr>) fileList =
     (case fullTest env (opts\<lparr>ignoreWarnings := False\<rparr>) fileList of
        Inl e \<Rightarrow> Inl e
      | Inr (errors, warnings, sm) \<Rightarrow> Inr (errors, [], sm))
   \<and> start env (Some (opts\<lparr>ignoreWarnings := True\<rparr>)) fileList =
     (case start env (Some (opts\<lparr>ignoreWarnings := False\<rparr>)) fileList of
        Invalid \<Rightarrow> Invalid
      | Thrown e \<Rightarrow> Thrown e
      | Validated errors warnings sm \<Rightarrow> Validated errors [] sm)
   \<and> ignoreWarnings (parseOptions opts) = ignoreWarnings opts"
proof (intro conjI)
  show "formatIssues table (opts\<lparr>ignoreWarnings := True\<rparr>) iss =
     (case formatIssues table (opts\<lparr>ignoreWarnings := False\<rparr>) iss of
        Inl e \<Rightarrow> Inl e
      | Inr (errors, warnings) \<Rightarrow> Inr (errors, []))"
    by (rule formatIssues_ignoreWarnings)
  show "fullTest env (opts\<lparr>ignoreWarnings := True\<rparr>) fileList =
     (case fullTest env (opts\<lparr>ignoreWarnings := False\<rparr>) fileList of
        Inl e \<Rightarrow> Inl e
      | Inr (errors, warnings, sm) \<Rightarrow> Inr (errors, [], sm))"
    by (rule fullTest_ignoreWarnings)
  have p: "parseOptions (opts\<lparr>ignoreWarnings := b\<rparr>) = (parseOptions opts)\<lparr>ignoreWarnings := b\<rparr>" for b
    by (simp add: parseOptions_def)
  show "start env (Some (opts\<lparr>ignoreWarnings := True\<rparr>)) fileList =
     (case start env (Some (opts\<lparr>ignoreWarnings := False\<rparr>)) fileList of
        Invalid \<Rightarrow> Invalid
      | Thrown e \<Rightarrow> Thrown e
      | Validated errors warnings sm \<Rightarrow> Validated errors [] sm)"
    by (simp add: start_def p fullTest_ignoreWarnings split: sum.splits prod.splits)
  show "ignoreWarnings (parseOptions opts) = ignoreWarnings opts"
    by (simp add: parseOptions_def)
qed

subsection \<open>The first loop\<close>

text \<open>The bound of the array indices is compared in binary when a run is evaluated.\<close>

lemma arrayIndex_code [code]: "arrayIndex k \<longleftrightarrow> int k < 4294967295"
  by (simp add: arrayIndex_def)

lemma map_of_pushFile:
  "map_of (pushFile k i cat) k' =
     (if k' = k then map_option (\<lambda>(t, fs). (t, fs @ [i])) (map_of cat k) else map_of cat k')"
  by (induction cat) auto

lemma keys_pushFile: "map fst (pushFile k i cat) = map fst cat"
  by (induction cat) auto

lemma keys_createEntry: "map fst (createEntry k t cat) = placeKey k (map fst cat)"
  by (induction cat) auto

lemma set_placeKey: "set (placeKey k ks) = insert k (set ks)"
  by (induction ks) auto

lemma distinct_placeKey: "k \<notin> set ks \<Longrightarrow> distinct ks \<Longrightarrow> distinct (placeKey k ks)"
  by (induction ks) (auto simp: set_placeKey)

lemma map_of_createEntry:
  "k \<notin> set (map fst cat) \<Longrightarrow> map_of (createEntry k t cat) = (map_of cat)(k \<mapsto> (t, []))"
  by (induction cat) (auto simp: fun_eq_iff)

text \<open>The keys are in the order of the visit, and every entry collects, in the order of
  the issue list, the issues of its code.\<close>

lemma categorize_inv:
  "categorize table iss cat = Inr cat' \<Longrightarrow> distinct (map fst cat) \<Longrightarrow>
     map fst cat' = keyOrder iss (map fst cat) \<and> distinct (map fst cat') \<and>
     set (map fst cat') = set (map fst cat) \<union> code ` set iss \<and>
     map_of cat' = grown table iss cat"
proof (induction iss arbitrary: cat)
  case Nil
  then show ?case
    by (auto simp: grown_def keyOrder_def fun_eq_iff split: option.splits)
next
  case (Cons i iss)
  show ?case
  proof (cases "map_of cat (code i)")
    case (Some e)
    let ?c = "pushFile (code i) i cat"
    from Some Cons.prems(1) have run: "categorize table iss ?c = Inr cat'"
      by simp
    have k: "map fst ?c = map fst cat"
      by (rule keys_pushFile)
    have "distinct (map fst ?c)"
      using Cons.prems(2) k by simp
    note ih0 = Cons.IH[OF run this, unfolded k]
    have ih: "map fst cat' = keyOrder iss (map fst cat)" "distinct (map fst cat')"
      "set (map fst cat') = set (map fst cat) \<union> code ` set iss"
      "map_of cat' = grown table iss ?c"
      using ih0 by blast+
    have ik: "code i \<in> set (map fst cat)"
      using Some by (metis map_of_eq_None_iff option.distinct(1) set_map)
    then have s: "set (map fst cat') = set (map fst cat) \<union> code ` set (i # iss)"
      using ih(3) by auto
    have o: "map fst cat' = keyOrder (i # iss) (map fst cat)"
      using ih(1) ik by (simp add: keyOrder_def)
    have "grown table iss ?c = grown table (i # iss) cat"
    proof (rule ext)
      fix k'
      obtain t fs where e: "e = (t, fs)"
        by (cases e) auto
      show "grown table iss ?c k' = grown table (i # iss) cat k'"
      proof (cases "k' = code i")
        case True
        then show ?thesis
          using Some e by (simp add: grown_def map_of_pushFile)
      next
        case False
        then show ?thesis
          by (simp add: grown_def map_of_pushFile split: option.split)
      qed
    qed
    then have "map_of cat' = grown table (i # iss) cat"
      using ih(4) by (simp only:)
    with o ih(2) s show ?thesis
      by blast
  next
    case None
    then obtain t where t: "table (code i) = Some t"
      using Cons.prems(1) by (cases "table (code i)") auto
    let ?c0 = "createEntry (code i) t cat"
    let ?c = "pushFile (code i) i ?c0"
    from None t Cons.prems(1) have run: "categorize table iss ?c = Inr cat'"
      by simp
    have nk: "code i \<notin> set (map fst cat)"
      using None by (simp add: map_of_eq_None_iff)
    have k: "map fst ?c = placeKey (code i) (map fst cat)"
      by (simp add: keys_pushFile keys_createEntry)
    have "distinct (map fst ?c)"
      using k Cons.prems(2) nk by (simp add: distinct_placeKey)
    note ih0 = Cons.IH[OF run this]
    have ih: "map fst cat' = keyOrder iss (map fst ?c)" "distinct (map fst cat')"
      "set (map fst cat') = set (map fst ?c) \<union> code ` set iss"
      "map_of cat' = grown table iss ?c"
      using ih0 by blast+
    have "set (map fst ?c) = insert (code i) (set (map fst cat))"
      by (simp only: k set_placeKey)
    then have s: "set (map fst cat') = set (map fst cat) \<union> code ` set (i # iss)"
      using ih(3) by auto
    have o: "map fst cat' = keyOrder (i # iss) (map fst cat)"
      using ih(1) k nk by (simp add: keyOrder_def)
    have m: "map_of ?c = (map_of cat)(code i \<mapsto> (t, [i]))"
      using nk by (simp add: fun_eq_iff map_of_pushFile map_of_createEntry)
    have "grown table iss ?c = grown table (i # iss) cat"
    proof (rule ext)
      fix k'
      show "grown table iss ?c k' = grown table (i # iss) cat k'"
      proof (cases "k' = code i")
        case True
        then show ?thesis
          using None t by (simp add: grown_def m)
      next
        case False
        then show ?thesis
          by (simp add: grown_def m split: option.split)
      qed
    qed
    then have "map_of cat' = grown table (i # iss) cat"
      using ih(4) by (simp only:)
    with o ih(2) s show ?thesis
      by blast
  qed
qed

lemma categorize_fails:
  "categorize table iss cat = Inl e \<longleftrightarrow>
     (\<exists>i \<in> set iss. code i \<notin> set (map fst cat) \<and> table (code i) = None)"
proof (induction iss arbitrary: cat)
  case Nil
  then show ?case by simp
next
  case (Cons i iss)
  show ?case
  proof (cases "map_of cat (code i)")
    case (Some e)
    then have "code i \<in> set (map fst cat)"
      by (metis map_of_eq_None_iff option.distinct(1) set_map)
    then show ?thesis
      using Some Cons.IH[of "pushFile (code i) i cat"] by (auto simp: keys_pushFile)
  next
    case None
    then have nk: "code i \<notin> set (map fst cat)"
      by (simp add: map_of_eq_None_iff)
    show ?thesis
    proof (cases "table (code i)")
      case None' : None
      then show ?thesis
        using None nk by (cases e) auto
    next
      case (Some t)
      have "set (map fst (pushFile (code i) i (createEntry (code i) t cat)))
          = insert (code i) (set (map fst cat))"
        by (simp add: keys_pushFile keys_createEntry set_placeKey)
      then have "categorize table iss (pushFile (code i) i (createEntry (code i) t cat)) = Inl e
          \<longleftrightarrow> (\<exists>j \<in> set iss. code j \<notin> insert (code i) (set (map fst cat))
                  \<and> table (code j) = None)"
        using Cons.IH[of "pushFile (code i) i (createEntry (code i) t cat)"] by simp
      moreover have "categorize table (i # iss) cat
          = categorize table iss (pushFile (code i) i (createEntry (code i) t cat))"
        using None Some by simp
      moreover have
        "(\<exists>j \<in> set iss. code j \<notin> insert (code i) (set (map fst cat)) \<and> table (code j) = None)
          \<longleftrightarrow> (\<exists>j \<in> set (i # iss). code j \<notin> set (map fst cat) \<and> table (code j) = None)"
        using Some by (metis insert_iff list.set_intros(2) option.distinct(1) set_ConsD)
      ultimately show ?thesis
        by simp
    qed
  qed
qed

lemma assoc_by_keys:
  "distinct (map fst xs) \<Longrightarrow> xs = map (\<lambda>k. (k, the (map_of xs k))) (map fst xs)"
proof (induction xs)
  case Nil
  then show ?case by simp
next
  case (Cons x xs)
  obtain a b where x: "x = (a, b)"
    by (cases x) auto
  have na: "a \<notin> set (map fst xs)"
    using Cons.prems x by simp
  have "\<And>k. k \<in> set (map fst xs) \<Longrightarrow> map_of (x # xs) k = map_of xs k"
    using na x by auto
  then have "map (\<lambda>k. (k, the (map_of (x # xs) k))) (map fst xs)
      = map (\<lambda>k. (k, the (map_of xs k))) (map fst xs)"
    by (intro map_cong) simp_all
  also have "\<dots> = xs"
    using Cons by simp
  finally show ?case
    using x by simp
qed

text \<open>The keys of the first loop started on the empty object.\<close>

lemma set_keyOrder: "set (keyOrder iss ks) = set ks \<union> code ` set iss"
  by (induction iss arbitrary: ks) (auto simp: keyOrder_def set_placeKey)

lemma distinct_keyOrder: "distinct ks \<Longrightarrow> distinct (keyOrder iss ks)"
proof (induction iss arbitrary: ks)
  case Nil
  then show ?case by (simp add: keyOrder_def)
next
  case (Cons i iss)
  have "keyOrder (i # iss) ks
      = keyOrder iss (if code i \<in> set ks then ks else placeKey (code i) ks)"
    by (simp add: keyOrder_def)
  then show ?case
    using Cons by (simp add: distinct_placeKey)
qed

lemma categorize_closed:
  "categorize table iss [] =
     (if \<exists>i \<in> set iss. table (code i) = None then Inl TypeError
      else Inr (map (\<lambda>k. (k, the (table k), filter (\<lambda>i. code i = k) iss))
                    (keyOrder iss [])))"
proof (cases "categorize table iss []")
  case (Inl e)
  then show ?thesis
    using categorize_fails[of table iss "[]" e] by (cases e) auto
next
  case (Inr cat')
  have nf: "\<not> (\<exists>i \<in> set iss. table (code i) = None)"
    using categorize_fails[of table iss "[]" TypeError] Inr by auto
  have "distinct (map fst ([] :: categorized))"
    by simp
  note inv0 = categorize_inv[OF Inr this]
  have "map fst cat' = keyOrder iss (map fst ([] :: categorized))"
    using inv0 by blast
  then have inv: "map fst cat' = keyOrder iss []" "distinct (map fst cat')"
      "map_of cat' = grown table iss []"
    using inv0 by (simp, blast, blast)
  have "set (map fst cat') = set (map fst ([] :: categorized)) \<union> code ` set iss"
    using inv0 by blast
  then have keys: "set (map fst cat') = code ` set iss"
    by simp
  have "cat' = map (\<lambda>k. (k, the (map_of cat' k))) (map fst cat')"
    using inv(2) by (rule assoc_by_keys)
  also have "\<dots> = map (\<lambda>k. (k, the (table k), filter (\<lambda>i. code i = k) iss)) (map fst cat')"
    using keys inv(3) by (auto simp: grown_def)
  finally show ?thesis
    using Inr nf inv(1) by simp
qed

text \<open>The result of \<open>formatIssues\<close>, from the codes of the issues in the order in which the
  second loop visits them.\<close>

lemma formatIssues_keys:
  "formatIssues table opts iss =
     (if \<exists>i \<in> set iss. table (code i) = None then Inl TypeError
      else Inr (map (groupOf table iss)
                  (filter (\<lambda>k. severity (the (table k)) = ''error'') (keyOrder iss [])),
                map (groupOf table iss)
                  (filter (\<lambda>k. severity (the (table k)) = ''warning'' \<and> \<not> ignoreWarnings opts)
                     (keyOrder iss []))))"
  by (simp add: formatIssues_closed categorize_closed filter_map comp_def groupOf_def)

text \<open>When every code is an array index, the visit is in ascending order of the codes.\<close>

lemma placeKey_insort:
  "arrayIndex k \<Longrightarrow> \<forall>x \<in> set ks. arrayIndex x \<Longrightarrow> k \<notin> set ks \<Longrightarrow> sorted ks \<Longrightarrow>
     placeKey k ks = insort k ks"
  by (induction ks) auto

lemma keyOrder_sorted:
  "\<forall>i \<in> set iss. arrayIndex (code i) \<Longrightarrow> \<forall>x \<in> set ks. arrayIndex x \<Longrightarrow> sorted ks \<Longrightarrow>
     sorted (keyOrder iss ks)"
proof (induction iss arbitrary: ks)
  case Nil
  then show ?case by (simp add: keyOrder_def)
next
  case (Cons i iss)
  let ?ks = "if code i \<in> set ks then ks else placeKey (code i) ks"
  have step: "keyOrder (i # iss) ks = keyOrder iss ?ks"
    by (simp add: keyOrder_def)
  have "\<forall>x \<in> set ?ks. arrayIndex x"
    using Cons.prems(1,2) by (simp add: set_placeKey)
  moreover have "sorted ?ks"
    using Cons.prems placeKey_insort[of "code i" ks] by (simp add: sorted_insort)
  ultimately show ?case
    using Cons.IH[of ?ks] Cons.prems(1) step by simp
qed

lemma keyOrder_arrayIndex:
  assumes "\<forall>i \<in> set iss. arrayIndex (code i)"
  shows "keyOrder iss [] = sorted_list_of_set (code ` set iss)"
proof -
  have "sorted (keyOrder iss [])"
    using assms by (intro keyOrder_sorted) simp_all
  moreover have "distinct (keyOrder iss [])"
    by (simp add: distinct_keyOrder)
  moreover have "set (keyOrder iss []) = code ` set iss"
    by (simp add: set_keyOrder)
  ultimately show ?thesis
    by (metis sorted_list_of_set.idem_if_sorted_distinct)
qed

lemma formatIssues_groups:
  assumes "formatIssues table opts iss = Inr (errors, warnings)"
    and "g \<in> set errors \<union> set warnings"
  shows "\<exists>k \<in> code ` set iss. g = groupOf table iss k
            \<and> (severity (the (table k)) = ''error'' \<or> severity (the (table k)) = ''warning'')
            \<and> table k \<noteq> None"
  using assms by (auto simp: formatIssues_keys set_keyOrder split: if_splits)

subsection \<open>The keys\<close>

lemma decimal_nonempty: "decimal n \<noteq> []"
  by (subst decimal.simps) simp

lemma last_decimal: "last (decimal n) = char_of (48 + n mod 10)"
  by (subst decimal.simps) simp

lemma butlast_decimal: "butlast (decimal n) = (if n < 10 then [] else decimal (n div 10))"
  by (subst decimal.simps) simp

lemma digit_inj:
  assumes "char_of (48 + a) = char_of (48 + b)" "a < 10" "b < (10::nat)"
  shows "a = b"
proof -
  have "of_char (char_of (48 + a)) = (of_char (char_of (48 + b)) :: nat)"
    using assms(1) by simp
  then have "(48 + a) mod 256 = (48 + b) mod 256"
    by (simp only: of_char_of)
  then show ?thesis
    using assms(2,3) by simp
qed

lemma decimal_inj: "decimal n = decimal m \<Longrightarrow> n = m"
proof (induction n arbitrary: m rule: decimal.induct)
  case (1 n)
  from "1.prems" have "last (decimal n) = last (decimal m)"
    by simp
  then have md: "n mod 10 = m mod 10"
    by (auto simp: last_decimal intro: digit_inj)
  from "1.prems" have bl: "butlast (decimal n) = butlast (decimal m)"
    by simp
  show ?case
  proof (cases "n < 10")
    case True
    then have "m < 10"
      using bl decimal_nonempty[of "m div 10"] by (auto simp: butlast_decimal split: if_splits)
    then show ?thesis
      using md True by simp
  next
    case False
    then have m: "\<not> m < 10"
      using bl decimal_nonempty[of "n div 10"] by (auto simp: butlast_decimal split: if_splits)
    then have "decimal (n div 10) = decimal (m div 10)"
      using bl False by (simp add: butlast_decimal)
    then have "n div 10 = m div 10"
      using "1.IH"[OF False] by simp
    then show ?thesis
      using md by (metis div_mult_mod_eq)
  qed
qed

lemma fieldmapRelatedCodes_decimal: "fieldmapRelatedCodes = map decimal [6, 7, 8, 9]"
  by code_simp

subsection \<open>Severities (C10)\<close>

text \<open>
  C10.  When \<open>formatIssues\<close> returns, a code whose severity in the table is neither
  \<open>error\<close> nor \<open>warning\<close> has no group among the errors or the warnings, and no
  issue of that code is among the files of any group of the output.
\<close>

theorem other_severity_dropped:
  assumes "formatIssues table opts iss = Inr (errors, warnings)"
    and "table c = Some t" "severity t \<noteq> ''error''" "severity t \<noteq> ''warning''"
  shows "\<forall>g \<in> set errors \<union> set warnings.
           gcode g \<noteq> decimal c \<and> (\<forall>i \<in> set (files g). code i \<noteq> c)"
proof
  fix g
  assume "g \<in> set errors \<union> set warnings"
  from formatIssues_groups[OF assms(1) this] obtain k where
    k: "g = groupOf table iss k"
      "severity (the (table k)) = ''error'' \<or> severity (the (table k)) = ''warning''"
    by blast
  have "k \<noteq> c"
    using k(2) assms(2,3,4) by auto
  then show "gcode g \<noteq> decimal c \<and> (\<forall>i \<in> set (files g). code i \<noteq> c)"
    using k(1) decimal_inj[of k c] by (auto simp: groupOf_def sortFiles_def)
qed

theorem other_severity_dropped_witness:
  "formatIssues
     (\<lambda>k. if k = 1 then Some \<lparr>severity = ''error'', reason = []\<rparr>
          else Some \<lparr>severity = ''ignore'', reason = []\<rparr>)
     \<lparr>ignoreWarnings = False, ignoreNiftiHeaders = False\<rparr>
     [\<lparr>issue_file = \<lparr>name = ''a'', relativePath = ''/a'', fileSize = 0\<rparr>, evidence = ''a'', code = 5\<rparr>,
      \<lparr>issue_file = \<lparr>name = ''b'', relativePath = ''/b'', fileSize = 0\<rparr>, evidence = ''b'', code = 1\<rparr>]
   = Inr ([\<lparr>gcode = ''1'', gtype = \<lparr>severity = ''error'', reason = []\<rparr>,
            files = [\<lparr>issue_file = \<lparr>name = ''b'', relativePath = ''/b'', fileSize = 0\<rparr>,
                      evidence = ''b'', code = 1\<rparr>]\<rparr>], [])
   \<and> gcode \<lparr>gcode = ''1'', gtype = \<lparr>severity = ''error'', reason = []\<rparr>,
            files = [\<lparr>issue_file = \<lparr>name = ''b'', relativePath = ''/b'', fileSize = 0\<rparr>,
                      evidence = ''b'', code = 1\<rparr>]\<rparr> \<noteq> decimal 5
   \<and> code \<lparr>issue_file = \<lparr>name = ''b'', relativePath = ''/b'', fileSize = 0\<rparr>,
                      evidence = ''b'', code = 1\<rparr> \<noteq> 5"
proof -
  let ?table = "\<lambda>k::nat. if k = 1 then Some \<lparr>severity = ''error'', reason = []\<rparr>
          else Some \<lparr>severity = ''ignore'', reason = []\<rparr>"
  let ?opts = "\<lparr>ignoreWarnings = False, ignoreNiftiHeaders = False\<rparr>"
  let ?iss = "[\<lparr>issue_file = \<lparr>name = ''a'', relativePath = ''/a'', fileSize = 0\<rparr>, evidence = ''a'', code = 5\<rparr>,
      \<lparr>issue_file = \<lparr>name = ''b'', relativePath = ''/b'', fileSize = 0\<rparr>, evidence = ''b'', code = 1\<rparr>]"
  let ?errors = "[\<lparr>gcode = ''1'', gtype = \<lparr>severity = ''error'', reason = []\<rparr>,
            files = [\<lparr>issue_file = \<lparr>name = ''b'', relativePath = ''/b'', fileSize = 0\<rparr>,
                      evidence = ''b'', code = 1\<rparr>]\<rparr>]"
  have run: "formatIssues ?table ?opts ?iss = Inr (?errors, [])"
    by code_simp
  have t: "?table 5 = Some \<lparr>severity = ''ignore'', reason = []\<rparr>"
    by simp
  have s: "severity \<lparr>severity = ''ignore'', reason = []\<rparr> \<noteq> ''error''"
    "severity \<lparr>severity = ''ignore'', reason = []\<rparr> \<noteq> ''warning''"
    by simp_all
  from other_severity_dropped[OF run t s] run show ?thesis
    by simp
qed

subsection \<open>The order of the files (C7)\<close>

lemma filter_eq_replicate: "filter ((=) k) zs = replicate (count_list zs k) k"
  by (induction zs) auto

text \<open>A stable sort by a key gives the same list for two arrangements of the same
  elements when no two different elements have the same key.\<close>

lemma sort_key_perm_inj:
  assumes "mset xs = mset ys" "inj_on f (set xs)"
  shows "sort_key f ys = sort_key f xs"
proof (rule properties_for_sort_key[symmetric])
  show "mset (sort_key f ys) = mset xs"
    using assms(1) by simp
  show "sorted (map f (sort_key f ys))"
    by simp
  fix k
  assume "k \<in> set (sort_key f ys)"
  then have k: "k \<in> set xs"
    using assms(1) by (metis set_mset_mset set_sort)
  have sets: "set ys = set xs"
    using assms(1) by (metis set_mset_mset)
  have "filter (\<lambda>x. f k = f x) (sort_key f ys) = filter ((=) k) (sort_key f ys)"
    using assms(2) k sets by (intro filter_cong) (auto simp: inj_on_def)
  moreover have "filter (\<lambda>x. f k = f x) xs = filter ((=) k) xs"
    using assms(2) k by (intro filter_cong) (auto simp: inj_on_def)
  moreover have "count_list (sort_key f ys) k = count_list xs k"
    using assms(1) by (metis count_mset mset_sort)
  ultimately show "filter (\<lambda>x. f k = f x) (sort_key f ys) = filter (\<lambda>x. f k = f x) xs"
    by (simp add: filter_eq_replicate)
qed

lemma groupOf_perm:
  assumes "mset iss = mset iss'"
    and "\<forall>a \<in> set iss. \<forall>b \<in> set iss.
           code a = code b \<and> relativePath (issue_file a) = relativePath (issue_file b) \<longrightarrow> a = b"
  shows "groupOf table iss' k = groupOf table iss k"
proof -
  have "mset (filter (\<lambda>i. code i = k) iss) = mset (filter (\<lambda>i. code i = k) iss')"
    using assms(1) by simp
  moreover have "inj_on (\<lambda>a. relativePath (issue_file a)) (set (filter (\<lambda>i. code i = k) iss))"
    using assms(2) by (auto simp: inj_on_def)
  ultimately show ?thesis
    by (simp add: groupOf_def sortFiles_def sort_key_perm_inj)
qed

lemma formatIssues_perm:
  assumes "mset iss = mset iss'"
    and "\<forall>a \<in> set iss. \<forall>b \<in> set iss.
           code a = code b \<and> relativePath (issue_file a) = relativePath (issue_file b) \<longrightarrow> a = b"
    and "\<forall>a \<in> set iss. arrayIndex (code a)"
  shows "formatIssues table opts iss' = formatIssues table opts iss"
proof -
  have sets: "set iss' = set iss"
    using assms(1) by (metis set_mset_mset)
  have "groupOf table iss' = groupOf table iss"
    using groupOf_perm[OF assms(1,2)] by (intro ext)
  moreover have "keyOrder iss' [] = keyOrder iss []"
    using assms(3) sets by (simp add: keyOrder_arrayIndex)
  ultimately show ?thesis
    using sets by (simp add: formatIssues_keys)
qed

text \<open>Without the bound on the codes the groups are the same, in an order that may
  differ.\<close>

lemma formatIssues_perm_groups:
  assumes "mset iss = mset iss'"
    and "\<forall>a \<in> set iss. \<forall>b \<in> set iss.
           code a = code b \<and> relativePath (issue_file a) = relativePath (issue_file b) \<longrightarrow> a = b"
  shows "map_sum id (\<lambda>(es, ws). (mset es, mset ws)) (formatIssues table opts iss')
       = map_sum id (\<lambda>(es, ws). (mset es, mset ws)) (formatIssues table opts iss)"
proof -
  have sets: "set iss' = set iss"
    using assms(1) by (metis set_mset_mset)
  have g: "groupOf table iss' = groupOf table iss"
    using groupOf_perm[OF assms(1,2)] by (intro ext)
  have "set (keyOrder iss' []) = set (keyOrder iss [])"
    using sets by (simp add: set_keyOrder)
  then have k: "mset (keyOrder iss' []) = mset (keyOrder iss [])"
    by (simp add: set_eq_iff_mset_eq_distinct[symmetric] distinct_keyOrder)
  have "mset (map (groupOf table iss) (filter P (keyOrder iss' [])))
      = mset (map (groupOf table iss) (filter P (keyOrder iss [])))" for P
    using k by (simp only: mset_map mset_filter)
  then show ?thesis
    using sets g by (simp add: formatIssues_keys)
qed

lemma formatIssues_sorted:
  assumes "formatIssues table opts iss = Inr (errors, warnings)"
    and "g \<in> set errors \<union> set warnings"
  shows "sorted (map (\<lambda>a. relativePath (issue_file a)) (files g))
       \<and> mset (files g) = mset (filter (\<lambda>i. decimal (code i) = gcode g) iss)
       \<and> (\<forall>p. filter (\<lambda>a. relativePath (issue_file a) = p) (files g)
              = filter (\<lambda>i. decimal (code i) = gcode g \<and> relativePath (issue_file i) = p) iss)"
proof -
  from formatIssues_groups[OF assms] obtain k where k: "g = groupOf table iss k"
    by blast
  have c: "decimal (code i) = decimal k \<longleftrightarrow> code i = k" for i
    by (auto dest: decimal_inj)
  have "filter (\<lambda>a. relativePath (issue_file a) = p) (files g)
      = filter (\<lambda>i. decimal (code i) = gcode g \<and> relativePath (issue_file i) = p) iss" for p
  proof -
    have "filter (\<lambda>a. relativePath (issue_file a) = p) (files g)
        = filter (\<lambda>a. relativePath (issue_file a) = p) (filter (\<lambda>i. code i = k) iss)"
      unfolding k groupOf_def sortFiles_def by (simp only: issueGroup.simps sort_key_stable)
    then show ?thesis
      using k by (simp add: groupOf_def c)
  qed
  then show ?thesis
    using k by (simp add: groupOf_def sortFiles_def c)
qed

text \<open>Codes that are not array indices are visited in the order in which they first
  occur in the issue list: with such codes the order of the groups follows the order
  of the issues.\<close>

lemma keyOrder_large_codes:
  "keyOrder [\<lparr>issue_file = f, evidence = e, code = 4294967296\<rparr>,
             \<lparr>issue_file = f', evidence = e', code = 4294967295\<rparr>] [] = [4294967296, 4294967295]
   \<and> keyOrder [\<lparr>issue_file = f', evidence = e', code = 4294967295\<rparr>,
               \<lparr>issue_file = f, evidence = e, code = 4294967296\<rparr>] [] = [4294967295, 4294967296]"
  by (simp add: keyOrder_def arrayIndex_def)

text \<open>
  C7, as the code has it.  In every group of the output the files are in ascending
  order of their relative paths, they are the issues of that code, and the issues on
  one path are in the order in which they were appended to the issue list (the sort
  compares the paths only and keeps the order of equal paths).  The output does not
  depend on the order of the issue list as long as no two different issues of the same
  code are on the same path and every code is an array index (below \<open>2\<^sup>3\<^sup>2 - 1\<close>); without
  the bound on the codes the groups are still the same, each with the same list of
  files, but the groups may come in another order.  Two issues of code 1 on
  \<open>/sub-02/x\<close> and \<open>/sub-01/y\<close> come out as \<open>/sub-01/y\<close>, \<open>/sub-02/x\<close> in either order.
\<close>

theorem files_sorted_by_path:
  "(formatIssues table opts iss = Inr (errors, warnings) \<longrightarrow>
      (\<forall>g \<in> set errors \<union> set warnings.
         sorted (map (\<lambda>a. relativePath (issue_file a)) (files g))
         \<and> mset (files g) = mset (filter (\<lambda>i. decimal (code i) = gcode g) iss)
         \<and> (\<forall>p. filter (\<lambda>a. relativePath (issue_file a) = p) (files g)
                = filter (\<lambda>i. decimal (code i) = gcode g \<and> relativePath (issue_file i) = p) iss)))
   \<and> (mset iss' = mset iss
       \<and> (\<forall>a \<in> set iss. \<forall>b \<in> set iss.
             code a = code b \<and> relativePath (issue_file a) = relativePath (issue_file b)
             \<longrightarrow> a = b)
       \<longrightarrow> map_sum id (\<lambda>(es, ws). (mset es, mset ws)) (formatIssues table opts iss')
           = map_sum id (\<lambda>(es, ws). (mset es, mset ws)) (formatIssues table opts iss)
         \<and> ((\<forall>a \<in> set iss. arrayIndex (code a))
              \<longrightarrow> formatIssues table opts iss' = formatIssues table opts iss))
   \<and> (table 1 = Some t \<and> severity t = ''error''
       \<and> relativePath fx = ''/sub-02/x'' \<and> relativePath fy = ''/sub-01/y''
       \<longrightarrow> formatIssues table opts
             [\<lparr>issue_file = fx, evidence = ex, code = 1\<rparr>, \<lparr>issue_file = fy, evidence = ey, code = 1\<rparr>]
           = Inr ([\<lparr>gcode = ''1'', gtype = t,
                    files = [\<lparr>issue_file = fy, evidence = ey, code = 1\<rparr>,
                             \<lparr>issue_file = fx, evidence = ex, code = 1\<rparr>]\<rparr>], [])
         \<and> formatIssues table opts
             [\<lparr>issue_file = fy, evidence = ey, code = 1\<rparr>, \<lparr>issue_file = fx, evidence = ex, code = 1\<rparr>]
           = Inr ([\<lparr>gcode = ''1'', gtype = t,
                    files = [\<lparr>issue_file = fy, evidence = ey, code = 1\<rparr>,
                             \<lparr>issue_file = fx, evidence = ex, code = 1\<rparr>]\<rparr>], []))"
proof (intro conjI impI)
  assume "formatIssues table opts iss = Inr (errors, warnings)"
  then show "\<forall>g \<in> set errors \<union> set warnings.
         sorted (map (\<lambda>a. relativePath (issue_file a)) (files g))
         \<and> mset (files g) = mset (filter (\<lambda>i. decimal (code i) = gcode g) iss)
         \<and> (\<forall>p. filter (\<lambda>a. relativePath (issue_file a) = p) (files g)
                = filter (\<lambda>i. decimal (code i) = gcode g \<and> relativePath (issue_file i) = p) iss)"
    using formatIssues_sorted by blast
next
  assume "mset iss' = mset iss
       \<and> (\<forall>a \<in> set iss. \<forall>b \<in> set iss.
             code a = code b \<and> relativePath (issue_file a) = relativePath (issue_file b)
             \<longrightarrow> a = b)"
  then show "map_sum id (\<lambda>(es, ws). (mset es, mset ws)) (formatIssues table opts iss')
           = map_sum id (\<lambda>(es, ws). (mset es, mset ws)) (formatIssues table opts iss)"
    using formatIssues_perm_groups[of iss iss'] by simp
next
  assume "mset iss' = mset iss
       \<and> (\<forall>a \<in> set iss. \<forall>b \<in> set iss.
             code a = code b \<and> relativePath (issue_file a) = relativePath (issue_file b)
             \<longrightarrow> a = b)"
    and "\<forall>a \<in> set iss. arrayIndex (code a)"
  then show "formatIssues table opts iss' = formatIssues table opts iss"
    using formatIssues_perm[of iss iss'] by simp
next
  assume a: "table 1 = Some t \<and> severity t = ''error''
       \<and> relativePath fx = ''/sub-02/x'' \<and> relativePath fy = ''/sub-01/y''"
  have one: "decimal (Suc 0) = ''1''"
    by code_simp
  have lt: "\<not> (''/sub-02/x'' :: string) \<le> ''/sub-01/y''"
    by code_simp
  show "formatIssues table opts
             [\<lparr>issue_file = fx, evidence = ex, code = 1\<rparr>, \<lparr>issue_file = fy, evidence = ey, code = 1\<rparr>]
           = Inr ([\<lparr>gcode = ''1'', gtype = t,
                    files = [\<lparr>issue_file = fy, evidence = ey, code = 1\<rparr>,
                             \<lparr>issue_file = fx, evidence = ex, code = 1\<rparr>]\<rparr>], [])"
    using a lt by (simp add: formatIssues_keys keyOrder_def groupOf_def sortFiles_def one)
  have le: "(''/sub-01/y'' :: string) \<le> ''/sub-02/x''"
    by code_simp
  show "formatIssues table opts
             [\<lparr>issue_file = fy, evidence = ey, code = 1\<rparr>, \<lparr>issue_file = fx, evidence = ex, code = 1\<rparr>]
           = Inr ([\<lparr>gcode = ''1'', gtype = t,
                    files = [\<lparr>issue_file = fy, evidence = ey, code = 1\<rparr>,
                             \<lparr>issue_file = fx, evidence = ex, code = 1\<rparr>]\<rparr>], [])"
    using a le by (simp add: formatIssues_keys keyOrder_def groupOf_def sortFiles_def one)
qed

theorem files_sorted_by_path_witness:
  "formatIssues [1 \<mapsto> \<lparr>severity = ''error'', reason = []\<rparr>]
     \<lparr>ignoreWarnings = False, ignoreNiftiHeaders = False\<rparr>
     [\<lparr>issue_file = \<lparr>name = ''x'', relativePath = ''/sub-02/x'', fileSize = 0\<rparr>,
         evidence = ''x'', code = 1\<rparr>,
      \<lparr>issue_file = \<lparr>name = ''y'', relativePath = ''/sub-01/y'', fileSize = 0\<rparr>,
         evidence = ''y'', code = 1\<rparr>]
   = Inr ([\<lparr>gcode = ''1'', gtype = \<lparr>severity = ''error'', reason = []\<rparr>,
            files = [\<lparr>issue_file = \<lparr>name = ''y'', relativePath = ''/sub-01/y'', fileSize = 0\<rparr>,
                       evidence = ''y'', code = 1\<rparr>,
                     \<lparr>issue_file = \<lparr>name = ''x'', relativePath = ''/sub-02/x'', fileSize = 0\<rparr>,
                       evidence = ''x'', code = 1\<rparr>]\<rparr>], [])
   \<and> formatIssues [1 \<mapsto> \<lparr>severity = ''error'', reason = []\<rparr>]
     \<lparr>ignoreWarnings = False, ignoreNiftiHeaders = False\<rparr>
     [\<lparr>issue_file = \<lparr>name = ''y'', relativePath = ''/sub-01/y'', fileSize = 0\<rparr>,
         evidence = ''y'', code = 1\<rparr>,
      \<lparr>issue_file = \<lparr>name = ''x'', relativePath = ''/sub-02/x'', fileSize = 0\<rparr>,
         evidence = ''x'', code = 1\<rparr>]
   = formatIssues [1 \<mapsto> \<lparr>severity = ''error'', reason = []\<rparr>]
     \<lparr>ignoreWarnings = False, ignoreNiftiHeaders = False\<rparr>
     [\<lparr>issue_file = \<lparr>name = ''x'', relativePath = ''/sub-02/x'', fileSize = 0\<rparr>,
         evidence = ''x'', code = 1\<rparr>,
      \<lparr>issue_file = \<lparr>name = ''y'', relativePath = ''/sub-01/y'', fileSize = 0\<rparr>,
         evidence = ''y'', code = 1\<rparr>]
   \<and> sorted (map (\<lambda>a. relativePath (issue_file a))
        [\<lparr>issue_file = \<lparr>name = ''y'', relativePath = ''/sub-01/y'', fileSize = 0\<rparr>,
            evidence = ''y'', code = 1\<rparr>,
         \<lparr>issue_file = \<lparr>name = ''x'', relativePath = ''/sub-02/x'', fileSize = 0\<rparr>,
            evidence = ''x'', code = 1\<rparr>])"
proof -
  let ?table = "[1 \<mapsto> \<lparr>severity = ''error'', reason = []\<rparr>] :: issueTable"
  let ?opts = "\<lparr>ignoreWarnings = False, ignoreNiftiHeaders = False\<rparr>"
  let ?fx = "\<lparr>name = ''x'', relativePath = ''/sub-02/x'', fileSize = 0\<rparr>"
  let ?fy = "\<lparr>name = ''y'', relativePath = ''/sub-01/y'', fileSize = 0\<rparr>"
  let ?ix = "\<lparr>issue_file = ?fx, evidence = ''x'', code = 1\<rparr>"
  let ?iy = "\<lparr>issue_file = ?fy, evidence = ''y'', code = 1\<rparr>"
  let ?g = "\<lparr>gcode = ''1'', gtype = \<lparr>severity = ''error'', reason = []\<rparr>, files = [?iy, ?ix]\<rparr>"
  note inst = files_sorted_by_path[of ?table ?opts "[?ix, ?iy]" "[?g]" "[]" "[?iy, ?ix]"
      "\<lparr>severity = ''error'', reason = []\<rparr>" ?fx ?fy "''x''" "''y''"]
  have h3: "?table 1 = Some \<lparr>severity = ''error'', reason = []\<rparr>
       \<and> severity \<lparr>severity = ''error'', reason = []\<rparr> = ''error''
       \<and> relativePath ?fx = ''/sub-02/x'' \<and> relativePath ?fy = ''/sub-01/y''"
    by simp
  from inst h3 have run: "formatIssues ?table ?opts [?ix, ?iy] = Inr ([?g], [])"
    by blast
  have h2: "mset [?iy, ?ix] = mset [?ix, ?iy]
       \<and> (\<forall>a \<in> set [?ix, ?iy]. \<forall>b \<in> set [?ix, ?iy].
             code a = code b \<and> relativePath (issue_file a) = relativePath (issue_file b)
             \<longrightarrow> a = b)"
    by simp
  have h2': "\<forall>a \<in> set [?ix, ?iy]. arrayIndex (code a)"
    by (simp add: arrayIndex_def)
  from inst h2 h2' have perm: "formatIssues ?table ?opts [?iy, ?ix] = formatIssues ?table ?opts [?ix, ?iy]"
    by blast
  from inst run have "\<forall>g \<in> set [?g] \<union> set [].
         sorted (map (\<lambda>a. relativePath (issue_file a)) (files g))
         \<and> mset (files g) = mset (filter (\<lambda>i. decimal (code i) = gcode g) [?ix, ?iy])
         \<and> (\<forall>p. filter (\<lambda>a. relativePath (issue_file a) = p) (files g)
                = filter (\<lambda>i. decimal (code i) = gcode g \<and> relativePath (issue_file i) = p)
                    [?ix, ?iy])"
    by blast
  then have srt: "sorted (map (\<lambda>a. relativePath (issue_file a)) [?iy, ?ix])"
    by simp
  from run perm srt show ?thesis
    by blast
qed

text \<open>Two issues of one code on one path come out in the order in which they were
  appended: the output depends on that order.\<close>

theorem files_order_of_ties_counterexample:
  "formatIssues [2 \<mapsto> \<lparr>severity = ''error'', reason = []\<rparr>]
     \<lparr>ignoreWarnings = False, ignoreNiftiHeaders = False\<rparr>
     [\<lparr>issue_file = \<lparr>name = ''t.tsv'', relativePath = ''/t.tsv'', fileSize = 0\<rparr>,
         evidence = ''row 2'', code = 2\<rparr>,
      \<lparr>issue_file = \<lparr>name = ''t.tsv'', relativePath = ''/t.tsv'', fileSize = 0\<rparr>,
         evidence = ''row 3'', code = 2\<rparr>]
   \<noteq> formatIssues [2 \<mapsto> \<lparr>severity = ''error'', reason = []\<rparr>]
     \<lparr>ignoreWarnings = False, ignoreNiftiHeaders = False\<rparr>
     [\<lparr>issue_file = \<lparr>name = ''t.tsv'', relativePath = ''/t.tsv'', fileSize = 0\<rparr>,
         evidence = ''row 3'', code = 2\<rparr>,
      \<lparr>issue_file = \<lparr>name = ''t.tsv'', relativePath = ''/t.tsv'', fileSize = 0\<rparr>,
         evidence = ''row 2'', code = 2\<rparr>]"
  by code_simp

subsection \<open>The warnings about field maps (C4)\<close>

text \<open>
  C4.  When \<open>formatIssues\<close> has split the issues into errors and warnings, the last
  step of \<open>fullTest\<close> hands the errors over as they are, with the summary whose
  modalities are grouped; when \<open>fieldmap\<close> is not among the grouped modalities it
  hands over the warnings without those of codes 6, 7, 8 and 9, otherwise all the
  warnings.
\<close>

theorem fieldmap_warnings_filtered:
  assumes "formatIssues (issues_table env) opts
             (issues st @ headerFields env (headers st) @ session env fileList)
           = Inr (errors, warnings)"
  shows "finish env opts fileList st =
           Inr (errors,
                (if ''fieldmap'' \<in> set (groupModalities (modalities (summary st))) then warnings
                 else filter (\<lambda>w. \<forall>k \<in> {6, 7, 8, 9}. gcode w \<noteq> decimal k) warnings),
                (summary st)\<lparr>modalities := groupModalities (modalities (summary st))\<rparr>)"
  using assms
  by (simp add: finish_def Let_def filterWarnings_eq indexOfArr_None fieldmapRelatedCodes_decimal)

theorem fieldmap_warnings_filtered_witness:
  "formatIssues (issues_table (quiet [6 \<mapsto> \<lparr>severity = ''warning'', reason = []\<rparr>]))
     \<lparr>ignoreWarnings = False, ignoreNiftiHeaders = False\<rparr>
     [\<lparr>issue_file = \<lparr>name = ''a'', relativePath = ''/a'', fileSize = 0\<rparr>, evidence = ''a'', code = 6\<rparr>]
   = Inr ([], [\<lparr>gcode = ''6'', gtype = \<lparr>severity = ''warning'', reason = []\<rparr>,
         files = [\<lparr>issue_file = \<lparr>name = ''a'', relativePath = ''/a'', fileSize = 0\<rparr>,
                   evidence = ''a'', code = 6\<rparr>]\<rparr>])
   \<and> (case finish (quiet [6 \<mapsto> \<lparr>severity = ''warning'', reason = []\<rparr>])
         \<lparr>ignoreWarnings = False, ignoreNiftiHeaders = False\<rparr> []
         ((initial [] :: (unit, unit) run_state)\<lparr>issues :=
              [\<lparr>issue_file = \<lparr>name = ''a'', relativePath = ''/a'', fileSize = 0\<rparr>,
                 evidence = ''a'', code = 6\<rparr>],
            summary := (summary (initial [] :: (unit, unit) run_state))\<lparr>modalities := [''bold'']\<rparr>\<rparr>) of
        Inl e \<Rightarrow> False
      | Inr (errors, warnings, sm) \<Rightarrow>
          errors = [] \<and> warnings = [] \<and> modalities sm = [''bold''])
   \<and> (case finish (quiet [6 \<mapsto> \<lparr>severity = ''warning'', reason = []\<rparr>])
         \<lparr>ignoreWarnings = False, ignoreNiftiHeaders = False\<rparr> []
         ((initial [] :: (unit, unit) run_state)\<lparr>issues :=
              [\<lparr>issue_file = \<lparr>name = ''a'', relativePath = ''/a'', fileSize = 0\<rparr>,
                 evidence = ''a'', code = 6\<rparr>],
            summary := (summary (initial [] :: (unit, unit) run_state))\<lparr>modalities := [''epi'']\<rparr>\<rparr>) of
        Inl e \<Rightarrow> False
      | Inr (errors, warnings, sm) \<Rightarrow>
          errors = []
          \<and> warnings = [\<lparr>gcode = ''6'', gtype = \<lparr>severity = ''warning'', reason = []\<rparr>,
               files = [\<lparr>issue_file = \<lparr>name = ''a'', relativePath = ''/a'', fileSize = 0\<rparr>,
                         evidence = ''a'', code = 6\<rparr>]\<rparr>]
          \<and> modalities sm = [''fieldmap''])"
proof -
  let ?env = "quiet [6 \<mapsto> \<lparr>severity = ''warning'', reason = []\<rparr>]"
  let ?opts = "\<lparr>ignoreWarnings = False, ignoreNiftiHeaders = False\<rparr>"
  let ?i = "\<lparr>issue_file = \<lparr>name = ''a'', relativePath = ''/a'', fileSize = 0\<rparr>, evidence = ''a'', code = 6\<rparr>"
  let ?g = "\<lparr>gcode = ''6'', gtype = \<lparr>severity = ''warning'', reason = []\<rparr>, files = [?i]\<rparr>"
  let ?bold = "((initial []) :: (unit, unit) run_state)\<lparr>issues := [?i],
            summary := (summary (initial [] :: (unit, unit) run_state))\<lparr>modalities := [''bold'']\<rparr>\<rparr>"
  let ?epi = "((initial []) :: (unit, unit) run_state)\<lparr>issues := [?i],
            summary := (summary (initial [] :: (unit, unit) run_state))\<lparr>modalities := [''epi'']\<rparr>\<rparr>"
  have run: "formatIssues (issues_table ?env) ?opts [?i] = Inr ([], [?g])"
    by code_simp
  have run1: "formatIssues (issues_table ?env) ?opts
      (issues ?bold @ headerFields ?env (headers ?bold) @ session ?env []) = Inr ([], [?g])"
    using run by (simp add: quiet_def initial_def)
  have run2: "formatIssues (issues_table ?env) ?opts
      (issues ?epi @ headerFields ?env (headers ?epi) @ session ?env []) = Inr ([], [?g])"
    using run by (simp add: quiet_def initial_def)
  have six: "decimal 6 = ''6''" "decimal 7 = ''7''" "decimal 8 = ''8''" "decimal 9 = ''9''"
    by code_simp+
  have bold: "groupModalities [''bold''] = [''bold'']"
    by code_simp
  have epi: "groupModalities [''epi''] = [''fieldmap'']"
    by code_simp
  have 1: "finish ?env ?opts [] ?bold
      = Inr ([], [], (summary ?bold)\<lparr>modalities := [''bold'']\<rparr>)"
    using fieldmap_warnings_filtered[OF run1] by (simp add: bold six)
  have 2: "finish ?env ?opts [] ?epi
      = Inr ([], [?g], (summary ?epi)\<lparr>modalities := [''fieldmap'']\<rparr>)"
    using fieldmap_warnings_filtered[OF run2] by (simp add: epi six)
  show ?thesis
    using run 1 2 by simp
qed

section \<open>Strings\<close>

lemma startsWith_iff: "startsWith s w \<longleftrightarrow> (\<exists>t. s = w @ t)"
  by (induction s w rule: startsWith.induct) auto

lemma startsWith_append [simp]: "startsWith (w @ t) w"
  by (simp add: startsWith_iff)

lemma indexOf_zero: "indexOf s w = Some 0 \<longleftrightarrow> startsWith s w"
  by (cases s) (auto simp: startsWith_iff)

lemma indexOf_Some: "indexOf s w = Some i \<Longrightarrow> \<exists>u v. s = u @ w @ v \<and> length u = i"
proof (induction s arbitrary: i)
  case Nil
  then show ?case
    by (auto split: if_splits)
next
  case (Cons y s)
  show ?case
  proof (cases "startsWith (y # s) w")
    case True
    then show ?thesis
      using Cons.prems by (auto simp: startsWith_iff)
  next
    case False
    then obtain j where j: "indexOf s w = Some j" "i = Suc j"
      using Cons.prems by auto
    from Cons.IH[OF j(1)] obtain u v where "s = u @ w @ v" "length u = j"
      by blast
    then have "y # s = (y # u) @ w @ v \<and> length (y # u) = i"
      using j(2) by simp
    then show ?thesis
      by blast
  qed
qed

lemma indexOf_None: "indexOf s w = None \<Longrightarrow> \<not> (\<exists>u v. s = u @ w @ v)"
proof (induction s)
  case Nil
  then show ?case
    by (auto split: if_splits)
next
  case (Cons y s)
  from Cons.prems have ns: "\<not> startsWith (y # s) w" and n: "indexOf s w = None"
    by (auto split: if_splits)
  show ?case
  proof
    assume "\<exists>u v. y # s = u @ w @ v"
    then obtain u v where uv: "y # s = u @ w @ v"
      by blast
    show False
    proof (cases u)
      case Nil
      then show ?thesis
        using uv ns by (simp add: startsWith_iff)
    next
      case (Cons a u')
      then have "s = u' @ w @ v"
        using uv by simp
      then show ?thesis
        using Cons.IH[OF n] by blast
    qed
  qed
qed

lemma includesStr_iff: "includesStr s w \<longleftrightarrow> (\<exists>u v. s = u @ w @ v)"
proof (cases "indexOf s w")
  case None
  then show ?thesis
    using indexOf_None[OF None] by (simp add: includesStr_def)
next
  case (Some i)
  then show ?thesis
    using indexOf_Some[OF Some] by (auto simp: includesStr_def)
qed

lemma at_iff: "at xs i = (if i < length xs then Some (xs ! i) else None)"
  by (induction xs i rule: at.induct) auto

text \<open>The segments of a split hold no separator, and joined by the separator they are
  the string that was split.\<close>

lemma splitAcc_join:
  "concat (map (\<lambda>seg. sep # seg) (splitAcc sep acc s)) = sep # acc @ s"
  by (induction s arbitrary: acc) auto

lemma splitAcc_nosep:
  "sep \<notin> set acc \<Longrightarrow> seg \<in> set (splitAcc sep acc s) \<Longrightarrow> sep \<notin> set seg"
proof (induction s arbitrary: acc)
  case Nil
  then show ?case by simp
next
  case (Cons x s)
  show ?case
  proof (cases "x = sep")
    case True
    then have "seg = acc \<or> seg \<in> set (splitAcc sep [] s)"
      using Cons.prems(2) by simp
    then show ?thesis
      using Cons.prems(1) Cons.IH[of "[]"] by auto
  next
    case False
    then have "seg \<in> set (splitAcc sep (acc @ [x]) s)"
      using Cons.prems(2) by simp
    moreover have "sep \<notin> set (acc @ [x])"
      using False Cons.prems(1) by simp
    ultimately show ?thesis
      using Cons.IH by blast
  qed
qed

lemma split_segments:
  "concat (map (\<lambda>seg. sep # seg) (split s sep)) = sep # s"
  "seg \<in> set (split s sep) \<Longrightarrow> sep \<notin> set seg"
  using splitAcc_nosep[of sep "[]" seg s] by (simp_all add: split_def splitAcc_join)

section \<open>Properties of \<^verbatim>\<open>quickTest\<close>\<close>

lemma quickTest_iff:
  "quickTest fileList \<longleftrightarrow>
     (\<exists>f \<in> set fileList. relativePath f \<noteq> [] \<and>
        at (split (relativePath f) CHR ''/'') 1 \<noteq> Some ''derivatives'' \<and>
        looksLikeScan (rev (split (relativePath f) CHR ''/'')))"
  by (induction fileList) (auto simp: Let_def)

lemma looksLikeScan_rev:
  "looksLikeScan (rev segs) \<longleftrightarrow>
     3 \<le> length segs \<and>
     (\<exists>u v. segs ! (length segs - 1) = u @ ''.nii'' @ v) \<and>
     segs ! (length segs - 2) \<in> {''anat'', ''func'', ''dwi''} \<and>
     (\<exists>l. segs ! (length segs - 3) = ''ses-'' @ l \<or> segs ! (length segs - 3) = ''sub-'' @ l)"
proof (cases "3 \<le> length segs")
  case True
  then have "at (rev segs) 0 = Some (segs ! (length segs - 1))"
    "at (rev segs) 1 = Some (segs ! (length segs - 2))"
    "at (rev segs) 2 = Some (segs ! (length segs - 3))"
    by (auto simp: at_iff rev_nth numeral_2_eq_2 numeral_3_eq_3)
  then show ?thesis
    using True
    by (auto simp: looksLikeScan_def includesStr_iff indexOf_zero startsWith_iff)
next
  case False
  then have "at (rev segs) 2 = None"
    by (simp add: at_iff)
  then show ?thesis
    using False by (simp add: looksLikeScan_def)
qed

text \<open>
  C5, as the code has it.  \<open>quickTest\<close> answers true exactly when some file has a
  path that is not empty, whose second segment (the first directory, after the
  leading slash) is not \<open>derivatives\<close>, whose last segment contains \<open>.nii\<close>
  somewhere, whose last but one segment is \<open>anat\<close>, \<open>func\<close> or \<open>dwi\<close>, and whose
  segment before that starts with \<open>ses-\<close> or \<open>sub-\<close>.  It answers false on a list
  that holds \<open>/participants.tsv\<close> only.
\<close>

theorem quickTest_characterised:
  "(quickTest fileList \<longleftrightarrow>
     (\<exists>f \<in> set fileList.
        let segs = split (relativePath f) CHR ''/''; n = length segs in
        relativePath f \<noteq> [] \<and>
        \<not> (2 \<le> n \<and> segs ! 1 = ''derivatives'') \<and>
        3 \<le> n \<and>
        (\<exists>u v. segs ! (n - 1) = u @ ''.nii'' @ v) \<and>
        segs ! (n - 2) \<in> {''anat'', ''func'', ''dwi''} \<and>
        (\<exists>l. segs ! (n - 3) = ''ses-'' @ l \<or> segs ! (n - 3) = ''sub-'' @ l)))
   \<and> \<not> quickTest [\<lparr>name = ''participants.tsv'', relativePath = ''/participants.tsv'',
                     fileSize = 0\<rparr>]"
proof
  have "\<And>segs::string list. at segs 1 \<noteq> Some ''derivatives''
      \<longleftrightarrow> \<not> (2 \<le> length segs \<and> segs ! 1 = ''derivatives'')"
    by (auto simp: at_iff)
  then show "quickTest fileList \<longleftrightarrow>
     (\<exists>f \<in> set fileList.
        let segs = split (relativePath f) CHR ''/''; n = length segs in
        relativePath f \<noteq> [] \<and>
        \<not> (2 \<le> n \<and> segs ! 1 = ''derivatives'') \<and>
        3 \<le> n \<and>
        (\<exists>u v. segs ! (n - 1) = u @ ''.nii'' @ v) \<and>
        segs ! (n - 2) \<in> {''anat'', ''func'', ''dwi''} \<and>
        (\<exists>l. segs ! (n - 3) = ''ses-'' @ l \<or> segs ! (n - 3) = ''sub-'' @ l))"
    unfolding quickTest_iff looksLikeScan_rev Let_def by simp
  show "\<not> quickTest [\<lparr>name = ''participants.tsv'', relativePath = ''/participants.tsv'',
                     fileSize = 0\<rparr>]"
    by code_simp
qed

text \<open>A file under \<open>/sub-01/anat\<close> whose name holds \<open>.nii\<close> but ends in neither \<open>.nii\<close>
  nor \<open>.nii.gz\<close> is enough for \<open>quickTest\<close> to answer true.\<close>

theorem quickTest_nii_inside_name_counterexample:
  "quickTest [\<lparr>name = ''scan.nii.txt'', relativePath = ''/sub-01/anat/scan.nii.txt'',
               fileSize = 0\<rparr>]
   \<and> \<not> endsWith ''/sub-01/anat/scan.nii.txt'' ''.nii''
   \<and> \<not> endsWith ''/sub-01/anat/scan.nii.txt'' ''.nii.gz''"
  by code_simp

section \<open>Files with an invalid path (C8)\<close>

lemma validOnly_validateFile: "validOnly st \<Longrightarrow> validOnly (validateFile env f st)"
  by (auto simp: validOnly_def validateFile_def Let_def split: prod.splits if_splits)

lemma validOnly_phase1: "validOnly st \<Longrightarrow> validOnly (phase1 env fileList st)"
  unfolding phase1_def by (induction fileList arbitrary: st) (auto simp: validOnly_validateFile)

lemma validOnly_validateNifti:
  "validOnly st \<Longrightarrow> isBIDS (relativePath f) \<Longrightarrow> validOnly (validateNifti env opts fl f st)"
  by (auto simp: validOnly_def validateNifti_def split: sum.splits)

lemma validOnly_fold_nifti:
  "validOnly st \<Longrightarrow> \<forall>g \<in> set gs. isBIDS (relativePath g) \<Longrightarrow>
     validOnly (fold (validateNifti env opts fl) gs st)"
  by (induction gs arbitrary: st) (auto simp: validOnly_validateNifti)

lemma validOnly_phase2: "validOnly st \<Longrightarrow> validOnly (phase2 env opts fl st)"
  unfolding phase2_def by (rule validOnly_fold_nifti) (auto simp: validOnly_def)

lemma validOnly_initial: "validOnly (initial fl)"
  by (simp add: validOnly_def initial_def)

text \<open>Every step of either phase appends to the issues.\<close>

lemma validateFile_appends:
  "\<exists>X. issues (validateFile env g st) = issues st @ X
      \<and> (ownIssues env \<or> \<not> isBIDS (relativePath g) \<longrightarrow> (\<forall>i \<in> set X. issue_file i = g))"
proof (cases "isBIDS (relativePath g)")
  case False
  then show ?thesis
    by (simp add: validateFile_def Let_def)
next
  case True
  obtain iss jsObj where j: "json env g (readFile env g) = (iss, jsObj)"
    by (cases "json env g (readFile env g)") auto
  have "ownIssues env \<Longrightarrow> \<forall>i \<in> set iss. issue_file i = g"
    using j unfolding ownIssues_def by (metis fst_conv)
  moreover have "ownIssues env \<Longrightarrow> \<forall>i \<in> set (TSV env g c e). issue_file i = g" for c e
    unfolding ownIssues_def by blast
  moreover have "ownIssues env \<Longrightarrow> \<forall>i \<in> set (bvec env g c). issue_file i = g" for c
    unfolding ownIssues_def by blast
  moreover have "ownIssues env \<Longrightarrow> \<forall>i \<in> set (bval env g c). issue_file i = g" for c
    unfolding ownIssues_def by blast
  ultimately show ?thesis
    using True j by (simp add: validateFile_def Let_def)
qed

lemma phase1_Cons: "phase1 env (g # fileList) st = phase1 env fileList (validateFile env g st)"
  by (simp add: phase1_def)

lemma phase1_issues_prefix: "\<exists>X. issues (phase1 env fileList st) = issues st @ X"
proof (induction fileList arbitrary: st)
  case Nil
  then show ?case by (simp add: phase1_def)
next
  case (Cons g fileList)
  from validateFile_appends[of env g st] obtain X where
    "issues (validateFile env g st) = issues st @ X"
    by blast
  moreover from Cons[of "validateFile env g st"] obtain Y where
    "issues (phase1 env fileList (validateFile env g st)) = issues (validateFile env g st) @ Y"
    by blast
  ultimately show ?case
    by (simp add: phase1_Cons)
qed

lemma phase1_emits:
  assumes "\<not> isBIDS (relativePath f)" "f \<in> set fileList"
  shows "\<lparr>issue_file = f, evidence = name f, code = 1\<rparr> \<in> set (issues (phase1 env fileList st))"
  using assms(2)
proof (induction fileList arbitrary: st)
  case Nil
  then show ?case by simp
next
  case (Cons g fileList)
  show ?case
  proof (cases "g = f")
    case True
    have "issues (validateFile env f st)
        = issues st @ [\<lparr>issue_file = f, evidence = name f, code = 1\<rparr>]"
      using assms(1) by (simp add: validateFile_def Let_def)
    moreover from phase1_issues_prefix[of env fileList "validateFile env f st"] obtain Y where
      "issues (phase1 env fileList (validateFile env f st)) = issues (validateFile env f st) @ Y"
      by blast
    ultimately show ?thesis
      using True by (simp add: phase1_Cons)
  next
    case False
    then show ?thesis
      using Cons by (simp add: phase1_Cons)
  qed
qed

lemma phase1_issues_of_file:
  assumes "\<not> isBIDS (relativePath f)" "ownIssues env"
  shows "filter (\<lambda>i. issue_file i = f) (issues (phase1 env fileList st))
       = filter (\<lambda>i. issue_file i = f) (issues st)
         @ replicate (count_list fileList f) \<lparr>issue_file = f, evidence = name f, code = 1\<rparr>"
proof (induction fileList arbitrary: st)
  case Nil
  then show ?case by (simp add: phase1_def)
next
  case (Cons g fileList)
  show ?case
  proof (cases "g = f")
    case True
    have "issues (validateFile env f st)
        = issues st @ [\<lparr>issue_file = f, evidence = name f, code = 1\<rparr>]"
      using assms(1) by (simp add: validateFile_def Let_def)
    then show ?thesis
      using True Cons[of "validateFile env f st"]
      by (simp add: phase1_Cons replicate_append_same)
  next
    case False
    from validateFile_appends[of env g st] assms(2) obtain X where
      X: "issues (validateFile env g st) = issues st @ X" "\<forall>i \<in> set X. issue_file i = g"
      by blast
    have "filter (\<lambda>i. issue_file i = f) X = []"
      using X(2) False by (auto simp: filter_empty_conv)
    then show ?thesis
      using False X(1) Cons[of "validateFile env g st"] by (simp add: phase1_Cons)
  qed
qed

lemma validateNifti_appends: "\<exists>Y. issues (validateNifti env opts fl g st) = issues st @ Y"
  by (simp add: validateNifti_def split: sum.split)

lemma fold_nifti_issues:
  "set (issues st) \<subseteq> set (issues (fold (validateNifti env opts fl) gs st))"
proof (induction gs arbitrary: st)
  case Nil
  then show ?case by simp
next
  case (Cons g gs)
  from validateNifti_appends[of env opts fl g st] obtain Y where
    "issues (validateNifti env opts fl g st) = issues st @ Y"
    by blast
  then have "set (issues st) \<subseteq> set (issues (validateNifti env opts fl g st))"
    by simp
  then show ?case
    using Cons[of "validateNifti env opts fl g st"] by auto
qed

lemma phase2_issues: "set (issues st) \<subseteq> set (issues (phase2 env opts fl st))"
  unfolding phase2_def by (rule fold_nifti_issues)

text \<open>
  C8.  For a file whose relative path \<open>isBIDS\<close> rejects, the step of the first phase
  appends exactly one issue, of code 1, for that file with its name as evidence, calls
  no content validator, and leaves the NIfTI list, the events list and the two
  dictionaries as they were.  When the file is in the file list of a run, that issue
  is among the issues after the first phase and after both phases; when the content
  validators report on their own file only, the issues on the file after the first
  phase are that issue, once for each time the file is in the list.  After both phases
  of a run on any file list, the file is not in the NIfTI list, no content validator
  (the NIfTI one included) has been called on it, and its path is a key of neither
  dictionary and not in the events list.
\<close>

theorem invalid_path_one_issue:
  assumes "\<not> isBIDS (relativePath f)"
  shows "issues (validateFile env f st)
           = issues st @ [\<lparr>issue_file = f, evidence = name f, code = 1\<rparr>]
       \<and> invoked (validateFile env f st) = invoked st
       \<and> niftis (validateFile env f st) = niftis st
       \<and> events (validateFile env f st) = events st
       \<and> jsonContentsDict (validateFile env f st) = jsonContentsDict st
       \<and> bContentsDict (validateFile env f st) = bContentsDict st
       \<and> headers (validateFile env f st) = headers st
       \<and> (f \<in> set fileList \<longrightarrow>
            \<lparr>issue_file = f, evidence = name f, code = 1\<rparr>
              \<in> set (issues (phase1 env fileList (initial fileList)))
            \<and> \<lparr>issue_file = f, evidence = name f, code = 1\<rparr>
              \<in> set (issues (phase2 env opts fileList (phase1 env fileList (initial fileList)))))
       \<and> (ownIssues env \<longrightarrow>
            filter (\<lambda>i. issue_file i = f) (issues (phase1 env fileList (initial fileList)))
              = replicate (count_list fileList f) \<lparr>issue_file = f, evidence = name f, code = 1\<rparr>)
       \<and> f \<notin> set (niftis (phase2 env opts fileList (phase1 env fileList (initial fileList))))
       \<and> f \<notin> snd ` set (invoked (phase2 env opts fileList (phase1 env fileList (initial fileList))))
       \<and> f \<notin> fst ` set (headers (phase2 env opts fileList (phase1 env fileList (initial fileList))))
       \<and> relativePath f
           \<notin> set (events (phase2 env opts fileList (phase1 env fileList (initial fileList))))
       \<and> relativePath f
           \<notin> dom (jsonContentsDict
                   (phase2 env opts fileList (phase1 env fileList (initial fileList))))
       \<and> relativePath f
           \<notin> dom (bContentsDict
                   (phase2 env opts fileList (phase1 env fileList (initial fileList))))"
proof -
  have step: "issues (validateFile env f st)
           = issues st @ [\<lparr>issue_file = f, evidence = name f, code = 1\<rparr>]
       \<and> invoked (validateFile env f st) = invoked st
       \<and> niftis (validateFile env f st) = niftis st
       \<and> events (validateFile env f st) = events st
       \<and> jsonContentsDict (validateFile env f st) = jsonContentsDict st
       \<and> bContentsDict (validateFile env f st) = bContentsDict st
       \<and> headers (validateFile env f st) = headers st"
    using assms by (simp add: validateFile_def Let_def)
  let ?mid = "phase1 env fileList (initial fileList)"
  let ?final = "phase2 env opts fileList ?mid"
  have run: "f \<in> set fileList \<longrightarrow>
            \<lparr>issue_file = f, evidence = name f, code = 1\<rparr> \<in> set (issues ?mid)
            \<and> \<lparr>issue_file = f, evidence = name f, code = 1\<rparr> \<in> set (issues ?final)"
    using phase1_emits[OF assms, of fileList env "initial fileList"]
      phase2_issues[of ?mid env opts fileList] by blast
  have "issues (initial fileList :: ('a, 'b) run_state) = []"
    by (simp add: initial_def)
  then have one: "ownIssues env \<longrightarrow>
            filter (\<lambda>i. issue_file i = f) (issues ?mid)
              = replicate (count_list fileList f) \<lparr>issue_file = f, evidence = name f, code = 1\<rparr>"
    using phase1_issues_of_file[OF assms, of env fileList "initial fileList"] by simp
  have "validOnly ?final"
    by (intro validOnly_phase2 validOnly_phase1 validOnly_initial)
  then have "f \<notin> set (niftis ?final)" "f \<notin> snd ` set (invoked ?final)"
    "f \<notin> fst ` set (headers ?final)" "relativePath f \<notin> set (events ?final)"
    "relativePath f \<notin> dom (jsonContentsDict ?final)"
    "relativePath f \<notin> dom (bContentsDict ?final)"
    using assms unfolding validOnly_def by blast+
  with step run one show ?thesis
    by blast
qed

theorem invalid_path_one_issue_witness:
  "\<not> isBIDS ''/sub-01/ses-01/anat/sub-01_T1w.nii.gz''
   \<and> issues (validateFile (quiet Map.empty)
        \<lparr>name = ''sub-01_T1w.nii.gz'', relativePath = ''/sub-01/ses-01/anat/sub-01_T1w.nii.gz'',
          fileSize = 10\<rparr>
        (initial [\<lparr>name = ''sub-01_T1w.nii.gz'',
                   relativePath = ''/sub-01/ses-01/anat/sub-01_T1w.nii.gz'', fileSize = 10\<rparr>]))
      = [\<lparr>issue_file = \<lparr>name = ''sub-01_T1w.nii.gz'',
                         relativePath = ''/sub-01/ses-01/anat/sub-01_T1w.nii.gz'', fileSize = 10\<rparr>,
           evidence = ''sub-01_T1w.nii.gz'', code = 1\<rparr>]
   \<and> niftis (validateFile (quiet Map.empty)
        \<lparr>name = ''sub-01_T1w.nii.gz'', relativePath = ''/sub-01/ses-01/anat/sub-01_T1w.nii.gz'',
          fileSize = 10\<rparr>
        (initial [\<lparr>name = ''sub-01_T1w.nii.gz'',
                   relativePath = ''/sub-01/ses-01/anat/sub-01_T1w.nii.gz'', fileSize = 10\<rparr>]))
      = []
   \<and> invoked (validateFile (quiet Map.empty)
        \<lparr>name = ''sub-01_T1w.nii.gz'', relativePath = ''/sub-01/ses-01/anat/sub-01_T1w.nii.gz'',
          fileSize = 10\<rparr>
        (initial [\<lparr>name = ''sub-01_T1w.nii.gz'',
                   relativePath = ''/sub-01/ses-01/anat/sub-01_T1w.nii.gz'', fileSize = 10\<rparr>]))
      = []
   \<and> filter (\<lambda>i. issue_file i = \<lparr>name = ''sub-01_T1w.nii.gz'',
                   relativePath = ''/sub-01/ses-01/anat/sub-01_T1w.nii.gz'', fileSize = 10\<rparr>)
       (issues (phase1 (quiet Map.empty)
          [\<lparr>name = ''participants.tsv'', relativePath = ''/participants.tsv'', fileSize = 10\<rparr>,
           \<lparr>name = ''sub-01_T1w.nii.gz'',
             relativePath = ''/sub-01/ses-01/anat/sub-01_T1w.nii.gz'', fileSize = 10\<rparr>]
          (initial
            [\<lparr>name = ''participants.tsv'', relativePath = ''/participants.tsv'', fileSize = 10\<rparr>,
             \<lparr>name = ''sub-01_T1w.nii.gz'',
               relativePath = ''/sub-01/ses-01/anat/sub-01_T1w.nii.gz'', fileSize = 10\<rparr>])))
      = [\<lparr>issue_file = \<lparr>name = ''sub-01_T1w.nii.gz'',
                         relativePath = ''/sub-01/ses-01/anat/sub-01_T1w.nii.gz'', fileSize = 10\<rparr>,
           evidence = ''sub-01_T1w.nii.gz'', code = 1\<rparr>]
   \<and> \<lparr>issue_file = \<lparr>name = ''sub-01_T1w.nii.gz'',
                      relativePath = ''/sub-01/ses-01/anat/sub-01_T1w.nii.gz'', fileSize = 10\<rparr>,
        evidence = ''sub-01_T1w.nii.gz'', code = 1\<rparr>
      \<in> set (issues (phase2 (quiet Map.empty)
          \<lparr>ignoreWarnings = False, ignoreNiftiHeaders = False\<rparr>
          [\<lparr>name = ''participants.tsv'', relativePath = ''/participants.tsv'', fileSize = 10\<rparr>,
           \<lparr>name = ''sub-01_T1w.nii.gz'',
             relativePath = ''/sub-01/ses-01/anat/sub-01_T1w.nii.gz'', fileSize = 10\<rparr>]
          (phase1 (quiet Map.empty)
            [\<lparr>name = ''participants.tsv'', relativePath = ''/participants.tsv'', fileSize = 10\<rparr>,
             \<lparr>name = ''sub-01_T1w.nii.gz'',
               relativePath = ''/sub-01/ses-01/anat/sub-01_T1w.nii.gz'', fileSize = 10\<rparr>]
            (initial
              [\<lparr>name = ''participants.tsv'', relativePath = ''/participants.tsv'', fileSize = 10\<rparr>,
               \<lparr>name = ''sub-01_T1w.nii.gz'',
                 relativePath = ''/sub-01/ses-01/anat/sub-01_T1w.nii.gz'', fileSize = 10\<rparr>]))))"
proof -
  let ?f = "\<lparr>name = ''sub-01_T1w.nii.gz'',
             relativePath = ''/sub-01/ses-01/anat/sub-01_T1w.nii.gz'', fileSize = 10\<rparr>"
  let ?v = "\<lparr>name = ''participants.tsv'', relativePath = ''/participants.tsv'', fileSize = 10\<rparr>"
  let ?opts = "\<lparr>ignoreWarnings = False, ignoreNiftiHeaders = False\<rparr>"
  have path: "\<not> isBIDS ''/sub-01/ses-01/anat/sub-01_T1w.nii.gz''"
    by code_simp
  then have h: "\<not> isBIDS (relativePath ?f)"
    by simp
  have own: "ownIssues (quiet Map.empty)"
    by (simp add: ownIssues_def quiet_def)
  have mem: "?f \<in> set [?v, ?f]"
    by simp
  have cnt: "count_list [?v, ?f] ?f = 1"
    by simp
  from invalid_path_one_issue[OF h, of "quiet Map.empty" "initial [?f]" "[?v, ?f]" ?opts]
    path own mem cnt show ?thesis
    by (simp add: initial_def)
qed
section \<open>The matcher\<close>


lemma in_Eps: "(t, d) \<in> set (rmatch Eps s c) \<longleftrightarrow> t = s \<and> d = c"
  by auto















lemma exec_None: "exec r p = None \<longleftrightarrow> (\<forall>d. ([], d) \<notin> set (rmatch r p (\<lambda>n. None)))"
  by (auto simp: exec_def find_None_iff)


subsection \<open>How a match starts\<close>








section \<open>Patterns with a session\<close>


























subsection \<open>The predicates, one by one\<close>





















subsection \<open>Session consistency (C1)\<close>



text \<open>A backreference to a group that took no part matches the empty string: without a
  session directory, \<^verbatim>\<open>(_\2)?\<close> takes a lone underscore after the subject label.\<close>

lemma lone_underscore_accepted: "isAnat ''/sub-01/anat/sub-01__T1w.nii.gz''"
  by code_simp

end
